theory Spec2Isabelle
  imports Complex_Main "HOL-Library.Monad_Syntax"
begin

section \<open>The ball in the rotating hexagon: physics and geometry\<close>

text \<open>
  The development embeds \<^verbatim>\<open>src/lib/physics.ts\<close>, the geometry module
  (\<^verbatim>\<open>@/lib/geometry\<close>) and the physics part of the game loop of
  \<^verbatim>\<open>src/components/HexagonBounce.tsx\<close>.

  In the first embedding a JavaScript \<^verbatim>\<open>number\<close> is a real number: \<^verbatim>\<open>Math.sqrt\<close>,
  \<^verbatim>\<open>Math.cos\<close>, \<^verbatim>\<open>Math.sin\<close> and \<^verbatim>\<open>Math.PI\<close> are \<^term>\<open>sqrt\<close>, \<^term>\<open>cos\<close>,
  \<^term>\<open>sin\<close> and \<^term>\<open>pi\<close>, and rounding is not modelled; the functions whose
  properties depend on rounding, overflow or NaN are embedded again over double-precision
  numbers further below. A division by zero leaves
  the real numbers (JavaScript yields an infinity or NaN), so every division of the source
  is \<open>js_div\<close>, with \<^term>\<open>None\<close> for a zero divisor, and a function that divides returns
  an \<^typ>\<open>'a option\<close>. Objects mutated in place are passed and returned. Drawing, the
  trail and the scheduling of animation frames are left out.
\<close>

subsection \<open>Data\<close>

record Vector2D =
  x :: real
  y :: real

record Ball =
  position :: Vector2D
  velocity :: Vector2D
  radius :: real
  mass :: real

record PhysicsParams =
  gravity :: real
  airFriction :: real
  bounceDamping :: real
  minVelocity :: real

text \<open>The field \<^verbatim>\<open>end\<close> of a segment is \<open>endp\<close> here.\<close>

record LineSegment =
  start :: Vector2D
  endp :: Vector2D

record Hexagon =
  center :: Vector2D
  radius :: real
  rotation :: real

text \<open>The object returned by \<^verbatim>\<open>pointToSegmentDistance\<close>.\<close>

record SegmentDistance =
  distance :: real
  closestPoint :: Vector2D

text \<open>The object returned by \<^verbatim>\<open>circleSegmentCollision\<close>; its optional fields are options.\<close>

record Collision =
  collided :: bool
  normal :: "Vector2D option"
  depth :: "real option"
  contactPoint :: "Vector2D option"

subsection \<open>Division\<close>

definition js_div :: "real \<Rightarrow> real \<Rightarrow> real option" where
  "js_div a b = (if b = 0 then None else Some (a / b))"

subsection \<open>physics.ts\<close>

definition addVectors :: "Vector2D \<Rightarrow> Vector2D \<Rightarrow> Vector2D" where
  "addVectors v1 v2 = \<lparr>x = x v1 + x v2, y = y v1 + y v2\<rparr>"

definition scaleVector :: "Vector2D \<Rightarrow> real \<Rightarrow> Vector2D" where
  "scaleVector v scalar = \<lparr>x = x v * scalar, y = y v * scalar\<rparr>"

definition dotProduct :: "Vector2D \<Rightarrow> Vector2D \<Rightarrow> real" where
  "dotProduct v1 v2 = x v1 * x v2 + y v1 * y v2"

definition vectorLength :: "Vector2D \<Rightarrow> real" where
  "vectorLength v = sqrt (x v * x v + y v * y v)"

definition normalizeVector :: "Vector2D \<Rightarrow> Vector2D option" where
  "normalizeVector v =
     (let len = vectorLength v in
      if len = 0 then Some \<lparr>x = 0, y = 0\<rparr>
      else do { s \<leftarrow> js_div 1 len; Some (scaleVector v s) })"

definition applyGravity :: "Ball \<Rightarrow> real \<Rightarrow> real \<Rightarrow> Ball" where
  "applyGravity ball g deltaTime =
     ball\<lparr>velocity := (velocity ball)\<lparr>y := y (velocity ball) + g * deltaTime\<rparr>\<rparr>"

definition applyAirFriction :: "Ball \<Rightarrow> real \<Rightarrow> real \<Rightarrow> Ball" where
  "applyAirFriction ball af deltaTime =
     (let friction = 1 - af * deltaTime in
      ball\<lparr>velocity := \<lparr>x = x (velocity ball) * friction, y = y (velocity ball) * friction\<rparr>\<rparr>)"

definition updateBallPosition :: "Ball \<Rightarrow> real \<Rightarrow> Ball" where
  "updateBallPosition ball deltaTime =
     ball\<lparr>position := \<lparr>x = x (position ball) + x (velocity ball) * deltaTime,
                        y = y (position ball) + y (velocity ball) * deltaTime\<rparr>\<rparr>"

definition calculateBounceVelocity ::
  "Vector2D \<Rightarrow> Vector2D \<Rightarrow> Vector2D \<Rightarrow> real \<Rightarrow> Vector2D" where
  "calculateBounceVelocity vel nrm wallVelocity damping =
     (let relativeVelocity = \<lparr>x = x vel - x wallVelocity, y = y vel - y wallVelocity\<rparr>;
          normalSpeed = dotProduct relativeVelocity nrm
      in if normalSpeed > 0 then vel
         else
           (let bounceVelocity = \<lparr>x = x vel - 2 * normalSpeed * x nrm * damping,
                                   y = y vel - 2 * normalSpeed * y nrm * damping\<rparr>
            in \<lparr>x = x bounceVelocity + x wallVelocity * (1 - damping),
                y = y bounceVelocity + y wallVelocity * (1 - damping)\<rparr>))"

definition clampMinVelocity :: "Ball \<Rightarrow> real \<Rightarrow> Ball option" where
  "clampMinVelocity ball minV =
     (let speed = vectorLength (velocity ball) in
      if speed < minV \<and> speed > 0 then
        do {
          scale \<leftarrow> js_div minV speed;
          Some (ball\<lparr>velocity := \<lparr>x = x (velocity ball) * scale,
                                   y = y (velocity ball) * scale\<rparr>\<rparr>)
        }
      else Some ball)"

subsection \<open>The geometry module\<close>

definition getHexagonVertices :: "Hexagon \<Rightarrow> Vector2D list" where
  "getHexagonVertices hexagon =
     map (\<lambda>i. let angle = rotation hexagon + (pi / 3) * real i in
               \<lparr>x = x (center hexagon) + Hexagon.radius hexagon * cos angle,
                y = y (center hexagon) + Hexagon.radius hexagon * sin angle\<rparr>)
         [0..<6]"

definition getHexagonEdges :: "Hexagon \<Rightarrow> LineSegment list" where
  "getHexagonEdges hexagon =
     (let vertices = getHexagonVertices hexagon in
      map (\<lambda>i. \<lparr>start = vertices ! i, endp = vertices ! ((i + 1) mod 6)\<rparr>) [0..<6])"

definition pointToSegmentDistance :: "Vector2D \<Rightarrow> LineSegment \<Rightarrow> SegmentDistance option" where
  "pointToSegmentDistance point segment =
     (let segmentVector = \<lparr>x = x (endp segment) - x (start segment),
                           y = y (endp segment) - y (start segment)\<rparr>;
          pointVector = \<lparr>x = x point - x (start segment), y = y point - y (start segment)\<rparr>;
          segmentLengthSquared =
            x segmentVector * x segmentVector + y segmentVector * y segmentVector
      in do {
           t \<leftarrow> (if segmentLengthSquared \<noteq> 0 then
                   do {
                     q \<leftarrow> js_div (x pointVector * x segmentVector + y pointVector * y segmentVector)
                            segmentLengthSquared;
                     Some (max 0 (min 1 q))
                   }
                 else Some 0);
           let cp = \<lparr>x = x (start segment) + t * x segmentVector,
                     y = y (start segment) + t * y segmentVector\<rparr>;
           let dx = x point - x cp;
           let dy = y point - y cp;
           Some \<lparr>distance = sqrt (dx * dx + dy * dy), closestPoint = cp\<rparr>
         })"

definition circleSegmentCollision :: "Vector2D \<Rightarrow> real \<Rightarrow> LineSegment \<Rightarrow> Collision option" where
  "circleSegmentCollision circleCenter circleRadius segment =
     do {
       r \<leftarrow> pointToSegmentDistance circleCenter segment;
       if distance r \<ge> circleRadius then
         Some \<lparr>collided = False, normal = None, depth = None, contactPoint = None\<rparr>
       else
         do {
           let n0 = \<lparr>x = x circleCenter - x (closestPoint r),
                     y = y circleCenter - y (closestPoint r)\<rparr>;
           let normalLength = sqrt (x n0 * x n0 + y n0 * y n0);
           n \<leftarrow> (if normalLength > 0 then
                   do {
                     nx \<leftarrow> js_div (x n0) normalLength;
                     ny \<leftarrow> js_div (y n0) normalLength;
                     Some \<lparr>x = nx, y = ny\<rparr>
                   }
                 else Some n0);
           Some \<lparr>collided = True, normal = Some n, depth = Some (circleRadius - distance r),
                 contactPoint = Some (closestPoint r)\<rparr>
         }
     }"

definition getWallVelocity :: "Vector2D \<Rightarrow> Hexagon \<Rightarrow> real \<Rightarrow> Vector2D" where
  "getWallVelocity point hexagon angularVelocity =
     (let relativePos = \<lparr>x = x point - x (center hexagon), y = y point - y (center hexagon)\<rparr>
      in \<lparr>x = - y relativePos * angularVelocity, y = x relativePos * angularVelocity\<rparr>)"

definition getEdgeNormal :: "LineSegment \<Rightarrow> Vector2D option" where
  "getEdgeNormal edge =
     (let edgeVector = \<lparr>x = x (endp edge) - x (start edge), y = y (endp edge) - y (start edge)\<rparr>;
          n0 = \<lparr>x = - y edgeVector, y = x edgeVector\<rparr>;
          len = sqrt (x n0 * x n0 + y n0 * y n0)
      in if len > 0 then
           do {
             nx \<leftarrow> js_div (x n0) len;
             ny \<leftarrow> js_div (y n0) len;
             Some \<lparr>x = nx, y = ny\<rparr>
           }
         else Some n0)"

text \<open>The loop of \<^verbatim>\<open>isPointInHexagon\<close> over the indices still to visit; it returns
  at the first edge that has the point on its outer side.\<close>

fun isPointInHexagon_loop :: "Vector2D list \<Rightarrow> Vector2D \<Rightarrow> nat list \<Rightarrow> bool" where
  "isPointInHexagon_loop vertices point [] = True"
| "isPointInHexagon_loop vertices point (i # rest) =
     (let v1 = vertices ! i;
          v2 = vertices ! ((i + 1) mod 6);
          crossProduct = (x v2 - x v1) * (y point - y v1) - (y v2 - y v1) * (x point - x v1)
      in if crossProduct < 0 then False
         else isPointInHexagon_loop vertices point rest)"

definition isPointInHexagon :: "Vector2D \<Rightarrow> Hexagon \<Rightarrow> bool" where
  "isPointInHexagon point hexagon =
     isPointInHexagon_loop (getHexagonVertices hexagon) point [0..<6]"

subsection \<open>The physics of the game loop (HexagonBounce.tsx)\<close>

text \<open>The body of the loop of \<^verbatim>\<open>handleCollisions\<close> for one edge. A present object is
  truthy; the number \<^verbatim>\<open>collision.depth\<close> is truthy when it is not zero.\<close>

definition handleEdge :: "Hexagon \<Rightarrow> real \<Rightarrow> real \<Rightarrow> Ball \<Rightarrow> LineSegment \<Rightarrow> Ball option" where
  "handleEdge hexagon angularVelocity damping ball edge =
     do {
       collision \<leftarrow> circleSegmentCollision (position ball) (Ball.radius ball) edge;
       (case (collided collision, normal collision, contactPoint collision) of
          (True, Some n, Some cp) \<Rightarrow>
            (let wallVelocity = getWallVelocity cp hexagon angularVelocity;
                 ball1 = ball\<lparr>velocity :=
                           calculateBounceVelocity (velocity ball) n wallVelocity damping\<rparr>
             in (case depth collision of
                   Some d \<Rightarrow>
                     if d \<noteq> 0 then
                       Some (ball1\<lparr>position := \<lparr>x = x (position ball1) + x n * d,
                                                 y = y (position ball1) + y n * d\<rparr>\<rparr>)
                     else Some ball1
                 | None \<Rightarrow> Some ball1))
        | _ \<Rightarrow> Some ball)
     }"

fun handleCollisions_loop ::
  "Hexagon \<Rightarrow> real \<Rightarrow> real \<Rightarrow> Ball \<Rightarrow> LineSegment list \<Rightarrow> Ball option" where
  "handleCollisions_loop hexagon angularVelocity damping ball [] = Some ball"
| "handleCollisions_loop hexagon angularVelocity damping ball (edge # rest) =
     do {
       ball1 \<leftarrow> handleEdge hexagon angularVelocity damping ball edge;
       handleCollisions_loop hexagon angularVelocity damping ball1 rest
     }"

text \<open>\<^verbatim>\<open>handleCollisions\<close>; the damping is the \<^verbatim>\<open>physicsParams.bounceDamping\<close> it closes over.\<close>

definition handleCollisions :: "Ball \<Rightarrow> Hexagon \<Rightarrow> real \<Rightarrow> real \<Rightarrow> Ball option" where
  "handleCollisions ball hexagon angularVelocity damping =
     do {
       ball1 \<leftarrow> handleCollisions_loop hexagon angularVelocity damping ball (getHexagonEdges hexagon);
       if \<not> isPointInHexagon (position ball1) hexagon then
         (let toCenterX = x (center hexagon) - x (position ball1);
              toCenterY = y (center hexagon) - y (position ball1);
              dist = sqrt (toCenterX * toCenterX + toCenterY * toCenterY)
          in if dist > 0 then
               do {
                 ux \<leftarrow> js_div toCenterX dist;
                 uy \<leftarrow> js_div toCenterY dist;
                 Some (ball1\<lparr>position := \<lparr>x = x (position ball1) + ux * 5,
                                           y = y (position ball1) + uy * 5\<rparr>\<rparr>)
               }
             else Some ball1)
       else Some ball1
     }"

text \<open>The update of the ball and the hexagon in \<^verbatim>\<open>gameLoop\<close>: the statements under its
  guard \<^verbatim>\<open>!isPaused && deltaTime > 0\<close>, which run only when the guard holds. The argument
  \<open>deltaTime\<close> is the constant of that name, already capped at \<open>0.033\<close>; the trail the loop
  also records is drawing only.\<close>

definition gameLoop :: "bool \<Rightarrow> Ball \<Rightarrow> Hexagon \<Rightarrow> PhysicsParams \<Rightarrow> real \<Rightarrow> real \<Rightarrow> (Ball \<times> Hexagon) option" where
  "gameLoop isPaused ball hexagon params rotationSpeed deltaTime =
     (if \<not> isPaused \<and> deltaTime > 0 then
        (let hexagon1 = hexagon\<lparr>rotation := rotation hexagon + rotationSpeed * deltaTime\<rparr>;
             ball1 = applyGravity ball (gravity params) deltaTime;
             ball2 = applyAirFriction ball1 (airFriction params) deltaTime;
             ball3 = updateBallPosition ball2 deltaTime
         in do {
              ball4 \<leftarrow> handleCollisions ball3 hexagon1 rotationSpeed (bounceDamping params);
              ball5 \<leftarrow> clampMinVelocity ball4 (minVelocity params);
              Some (ball5, hexagon1)
            })
      else Some (ball, hexagon))"

subsection \<open>Reference notions of the specification\<close>

text \<open>
  These three definitions follow the words of the specification, not the code: the
  difference of two vectors, the point of a segment at parameter \<open>t\<close>, and the parameter
  of the projection of a point onto the line through the segment, clamped to \<open>[0, 1]\<close>
  and taken as \<open>0\<close> for a segment of squared length zero. The code is compared with them.
\<close>

definition subVectors :: "Vector2D \<Rightarrow> Vector2D \<Rightarrow> Vector2D" where
  "subVectors v1 v2 = \<lparr>x = x v1 - x v2, y = y v1 - y v2\<rparr>"

definition pointOnSegment :: "LineSegment \<Rightarrow> real \<Rightarrow> Vector2D" where
  "pointOnSegment segment t =
     \<lparr>x = x (start segment) + t * (x (endp segment) - x (start segment)),
      y = y (start segment) + t * (y (endp segment) - y (start segment))\<rparr>"

definition clampedParameter :: "Vector2D \<Rightarrow> LineSegment \<Rightarrow> real" where
  "clampedParameter point segment =
     (let dx = x (endp segment) - x (start segment);
          dy = y (endp segment) - y (start segment);
          len2 = dx * dx + dy * dy
      in if len2 = 0 then 0
         else max 0 (min 1 (((x point - x (start segment)) * dx
                              + (y point - y (start segment)) * dy) / len2)))"

subsection \<open>Double-precision numbers\<close>

text \<open>
  Exact reflection, the exact boundary of a collision and the exact minimum speed depend on
  rounding, overflow and NaN. For them \<^verbatim>\<open>dotProduct\<close>, \<^verbatim>\<open>vectorLength\<close>,
  \<^verbatim>\<open>calculateBounceVelocity\<close>, \<^verbatim>\<open>clampMinVelocity\<close>, \<^verbatim>\<open>pointToSegmentDistance\<close> and
  \<^verbatim>\<open>circleSegmentCollision\<close> are embedded a second time, over IEEE 754 binary64 numbers, under
  their names with the suffix \<open>64\<close>.

  A double is a finite real number, one of the two infinities, or NaN. The two zeros are one
  value here: the functions embedded below compare, add, subtract and multiply zeros and
  never divide by one, so the sign of a zero does not reach their results. \<open>rnd\<close> rounds a
  real number to the nearest double, ties to even: the spacing of the doubles around \<open>r\<close> is
  \<open>2\<close> to the power \<open>ulp_exp r\<close> (\<open>52\<close> below the binary exponent of \<open>r\<close>, and \<open>-1074\<close> in the
  subnormal range), and a rounded value of magnitude \<open>2 ^ 1024\<close> or more is an infinity.
\<close>

datatype f64 = Fin real | PInf | NInf | NaN

definition rne :: "real \<Rightarrow> int" where
  "rne q = (let f = \<lfloor>q\<rfloor>; d = q - of_int f in
            if d < 1 / 2 then f else if 1 / 2 < d then f + 1 else if even f then f else f + 1)"

definition ulp_exp :: "real \<Rightarrow> int" where
  "ulp_exp r = max (\<lfloor>log 2 \<bar>r\<bar>\<rfloor> - 52) (- 1074)"

definition round_real :: "real \<Rightarrow> real" where
  "round_real r =
     (if r = 0 then 0
      else sgn r * (of_int (rne (\<bar>r\<bar> / 2 powr of_int (ulp_exp r))) * 2 powr of_int (ulp_exp r)))"

definition rnd :: "real \<Rightarrow> f64" where
  "rnd r = (let v = round_real r in
            if 2 ^ 1024 \<le> v then PInf else if v \<le> - (2 ^ 1024) then NInf else Fin v)"

text \<open>The finite doubles are the numbers \<open>m * 2 ^ e\<close> with \<open>\<bar>m\<bar> < 2 ^ 53\<close> and
  \<open>-1074 \<le> e \<le> 971\<close>; \<open>rnd\<close> leaves them as they are (lemma \<open>rnd_exact\<close> below).\<close>

definition representable :: "real \<Rightarrow> bool" where
  "representable r \<longleftrightarrow>
     (\<exists>m e. r = of_int m * 2 powr of_int e \<and> \<bar>m\<bar> < 2 ^ 53 \<and> - 1074 \<le> e \<and> e \<le> 971)"

text \<open>
  The operators \<^verbatim>\<open>-x\<close>, \<^verbatim>\<open>+\<close>, \<^verbatim>\<open>-\<close>, \<^verbatim>\<open>*\<close>, \<^verbatim>\<open>/\<close>, \<^verbatim>\<open>Math.sqrt\<close>, \<^verbatim>\<open><\<close>, \<^verbatim>\<open><=\<close>, \<^verbatim>\<open>>\<close>, \<^verbatim>\<open>>=\<close>,
  \<^verbatim>\<open>!==\<close>, \<^verbatim>\<open>Math.min\<close> and \<^verbatim>\<open>Math.max\<close> on doubles: the exact result rounded, with the
  rules of IEEE 754 for infinities and NaN (every comparison with NaN is false, \<^verbatim>\<open>!==\<close> with
  NaN is true, \<^verbatim>\<open>Math.min\<close> and \<^verbatim>\<open>Math.max\<close> return NaN for a NaN argument). \<open>fquot\<close> is the
  quotient by a divisor other than zero; \<open>fdiv\<close>, which embeds the divisions of the source,
  is \<^term>\<open>None\<close> for a zero divisor, as \<open>js_div\<close> is: the quotient by zero depends on the
  sign of the zero, and every division below is guarded against a zero divisor.
  \<^verbatim>\<open>Math.sqrt\<close> is the correctly rounded square root of IEEE 754.
\<close>

fun fneg :: "f64 \<Rightarrow> f64" where
  "fneg (Fin a) = Fin (- a)"
| "fneg PInf = NInf"
| "fneg NInf = PInf"
| "fneg NaN = NaN"

fun fadd :: "f64 \<Rightarrow> f64 \<Rightarrow> f64" where
  "fadd (Fin a) (Fin b) = rnd (a + b)"
| "fadd NaN _ = NaN"
| "fadd _ NaN = NaN"
| "fadd PInf NInf = NaN"
| "fadd NInf PInf = NaN"
| "fadd PInf _ = PInf"
| "fadd _ PInf = PInf"
| "fadd NInf _ = NInf"
| "fadd _ NInf = NInf"

definition fsub :: "f64 \<Rightarrow> f64 \<Rightarrow> f64" where
  "fsub a b = fadd a (fneg b)"

fun fmul :: "f64 \<Rightarrow> f64 \<Rightarrow> f64" where
  "fmul (Fin a) (Fin b) = rnd (a * b)"
| "fmul NaN _ = NaN"
| "fmul _ NaN = NaN"
| "fmul (Fin a) PInf = (if a = 0 then NaN else if 0 < a then PInf else NInf)"
| "fmul (Fin a) NInf = (if a = 0 then NaN else if 0 < a then NInf else PInf)"
| "fmul PInf (Fin b) = (if b = 0 then NaN else if 0 < b then PInf else NInf)"
| "fmul NInf (Fin b) = (if b = 0 then NaN else if 0 < b then NInf else PInf)"
| "fmul PInf PInf = PInf"
| "fmul PInf NInf = NInf"
| "fmul NInf PInf = NInf"
| "fmul NInf NInf = PInf"

fun fquot :: "f64 \<Rightarrow> f64 \<Rightarrow> f64" where
  "fquot (Fin a) (Fin b) = rnd (a / b)"
| "fquot NaN _ = NaN"
| "fquot _ NaN = NaN"
| "fquot (Fin a) _ = Fin 0"
| "fquot PInf (Fin b) = (if 0 < b then PInf else NInf)"
| "fquot NInf (Fin b) = (if 0 < b then NInf else PInf)"
| "fquot _ _ = NaN"

definition fdiv :: "f64 \<Rightarrow> f64 \<Rightarrow> f64 option" where
  "fdiv a b = (if b = Fin 0 then None else Some (fquot a b))"

fun fsqrt :: "f64 \<Rightarrow> f64" where
  "fsqrt (Fin a) = (if a < 0 then NaN else rnd (sqrt a))"
| "fsqrt PInf = PInf"
| "fsqrt NInf = NaN"
| "fsqrt NaN = NaN"

fun flt :: "f64 \<Rightarrow> f64 \<Rightarrow> bool" where
  "flt (Fin a) (Fin b) = (a < b)"
| "flt NaN _ = False"
| "flt _ NaN = False"
| "flt _ NInf = False"
| "flt NInf _ = True"
| "flt PInf _ = False"
| "flt _ PInf = True"

fun fle :: "f64 \<Rightarrow> f64 \<Rightarrow> bool" where
  "fle (Fin a) (Fin b) = (a \<le> b)"
| "fle NaN _ = False"
| "fle _ NaN = False"
| "fle NInf _ = True"
| "fle _ PInf = True"
| "fle _ _ = False"

definition fgt :: "f64 \<Rightarrow> f64 \<Rightarrow> bool" where
  "fgt a b = flt b a"

definition fge :: "f64 \<Rightarrow> f64 \<Rightarrow> bool" where
  "fge a b = fle b a"

definition fne :: "f64 \<Rightarrow> f64 \<Rightarrow> bool" where
  "fne a b = (a = NaN \<or> b = NaN \<or> a \<noteq> b)"

definition fmin :: "f64 \<Rightarrow> f64 \<Rightarrow> f64" where
  "fmin a b = (if a = NaN \<or> b = NaN then NaN else if fle a b then a else b)"

definition fmax :: "f64 \<Rightarrow> f64 \<Rightarrow> f64" where
  "fmax a b = (if a = NaN \<or> b = NaN then NaN else if fle a b then b else a)"

text \<open>The data of the source over doubles.\<close>

record Vector2D64 =
  x64 :: f64
  y64 :: f64


record LineSegment64 =
  start64 :: Vector2D64
  endp64 :: Vector2D64

record SegmentDistance64 =
  distance64 :: f64
  closestPoint64 :: Vector2D64

record Collision64 =
  collided64 :: bool
  normal64 :: "Vector2D64 option"
  depth64 :: "f64 option"
  contactPoint64 :: "Vector2D64 option"

text \<open>The functions of \<^verbatim>\<open>physics.ts\<close> and of the geometry module over doubles, operation by
  operation in the order in which JavaScript evaluates them.\<close>

definition dotProduct64 :: "Vector2D64 \<Rightarrow> Vector2D64 \<Rightarrow> f64" where
  "dotProduct64 v1 v2 = fadd (fmul (x64 v1) (x64 v2)) (fmul (y64 v1) (y64 v2))"

definition vectorLength64 :: "Vector2D64 \<Rightarrow> f64" where
  "vectorLength64 v = fsqrt (fadd (fmul (x64 v) (x64 v)) (fmul (y64 v) (y64 v)))"

definition calculateBounceVelocity64 ::
  "Vector2D64 \<Rightarrow> Vector2D64 \<Rightarrow> Vector2D64 \<Rightarrow> f64 \<Rightarrow> Vector2D64" where
  "calculateBounceVelocity64 vel nrm wallVelocity damping =
     (let relativeVelocity = \<lparr>x64 = fsub (x64 vel) (x64 wallVelocity),
                              y64 = fsub (y64 vel) (y64 wallVelocity)\<rparr>;
          normalSpeed = dotProduct64 relativeVelocity nrm
      in if fgt normalSpeed (Fin 0) then vel
         else
           (let bounceVelocity =
                  \<lparr>x64 = fsub (x64 vel) (fmul (fmul (fmul (Fin 2) normalSpeed) (x64 nrm)) damping),
                   y64 = fsub (y64 vel) (fmul (fmul (fmul (Fin 2) normalSpeed) (y64 nrm)) damping)\<rparr>
            in \<lparr>x64 = fadd (x64 bounceVelocity) (fmul (x64 wallVelocity) (fsub (Fin 1) damping)),
                y64 = fadd (y64 bounceVelocity) (fmul (y64 wallVelocity) (fsub (Fin 1) damping))\<rparr>))"


definition pointToSegmentDistance64 :: "Vector2D64 \<Rightarrow> LineSegment64 \<Rightarrow> SegmentDistance64 option" where
  "pointToSegmentDistance64 point segment =
     (let segmentVector = \<lparr>x64 = fsub (x64 (endp64 segment)) (x64 (start64 segment)),
                           y64 = fsub (y64 (endp64 segment)) (y64 (start64 segment))\<rparr>;
          pointVector = \<lparr>x64 = fsub (x64 point) (x64 (start64 segment)),
                         y64 = fsub (y64 point) (y64 (start64 segment))\<rparr>;
          segmentLengthSquared =
            fadd (fmul (x64 segmentVector) (x64 segmentVector))
                 (fmul (y64 segmentVector) (y64 segmentVector))
      in do {
           t \<leftarrow> (if fne segmentLengthSquared (Fin 0) then
                   do {
                     q \<leftarrow> fdiv (fadd (fmul (x64 pointVector) (x64 segmentVector))
                                      (fmul (y64 pointVector) (y64 segmentVector)))
                            segmentLengthSquared;
                     Some (fmax (Fin 0) (fmin (Fin 1) q))
                   }
                 else Some (Fin 0));
           let cp = \<lparr>x64 = fadd (x64 (start64 segment)) (fmul t (x64 segmentVector)),
                     y64 = fadd (y64 (start64 segment)) (fmul t (y64 segmentVector))\<rparr>;
           let dx = fsub (x64 point) (x64 cp);
           let dy = fsub (y64 point) (y64 cp);
           Some \<lparr>distance64 = fsqrt (fadd (fmul dx dx) (fmul dy dy)), closestPoint64 = cp\<rparr>
         })"

definition circleSegmentCollision64 ::
  "Vector2D64 \<Rightarrow> f64 \<Rightarrow> LineSegment64 \<Rightarrow> Collision64 option" where
  "circleSegmentCollision64 circleCenter circleRadius segment =
     do {
       r \<leftarrow> pointToSegmentDistance64 circleCenter segment;
       if fge (distance64 r) circleRadius then
         Some \<lparr>collided64 = False, normal64 = None, depth64 = None, contactPoint64 = None\<rparr>
       else
         do {
           let n0 = \<lparr>x64 = fsub (x64 circleCenter) (x64 (closestPoint64 r)),
                     y64 = fsub (y64 circleCenter) (y64 (closestPoint64 r))\<rparr>;
           let normalLength = fsqrt (fadd (fmul (x64 n0) (x64 n0)) (fmul (y64 n0) (y64 n0)));
           n \<leftarrow> (if fgt normalLength (Fin 0) then
                   do {
                     nx \<leftarrow> fdiv (x64 n0) normalLength;
                     ny \<leftarrow> fdiv (y64 n0) normalLength;
                     Some \<lparr>x64 = nx, y64 = ny\<rparr>
                   }
                 else Some n0);
           Some \<lparr>collided64 = True, normal64 = Some n,
                 depth64 = Some (fsub circleRadius (distance64 r)),
                 contactPoint64 = Some (closestPoint64 r)\<rparr>
         }
     }"

text \<open>Two notions for the statements below: a double that is not negative (a finite real
  \<open>\<ge> 0\<close> or \<open>+infinity\<close>), and a finite double of magnitude at most \<open>2 ^ k\<close>.\<close>

definition nonneg64 :: "f64 \<Rightarrow> bool" where
  "nonneg64 a \<longleftrightarrow> a = PInf \<or> (\<exists>v. a = Fin v \<and> 0 \<le> v)"

definition bounded64 :: "int \<Rightarrow> f64 \<Rightarrow> bool" where
  "bounded64 k a \<longleftrightarrow> (\<exists>v. a = Fin v \<and> \<bar>v\<bar> \<le> 2 powr of_int k)"

section \<open>Properties\<close>

subsection \<open>Vectors and division\<close>

lemma js_div_Some: "b \<noteq> 0 \<Longrightarrow> js_div a b = Some (a / b)"
  by (simp add: js_div_def)

lemma vectorLength_nonneg: "0 \<le> vectorLength v"
  by (simp add: vectorLength_def)

lemma vectorLength_zero_iff: "vectorLength v = 0 \<longleftrightarrow> v = \<lparr>x = 0, y = 0\<rparr>"
proof
  assume "vectorLength v = 0"
  then have "x v * x v + y v * y v = 0"
    by (simp add: vectorLength_def)
  then have "x v = 0 \<and> y v = 0"
    by (simp add: sum_squares_eq_zero_iff)
  then show "v = \<lparr>x = 0, y = 0\<rparr>"
    by simp
next
  assume "v = \<lparr>x = 0, y = 0\<rparr>"
  then have "x v = 0" and "y v = 0"
    by simp_all
  then show "vectorLength v = 0"
    by (simp add: vectorLength_def)
qed

lemma vectorLength_scaleVector: "vectorLength (scaleVector v k) = \<bar>k\<bar> * vectorLength v"
proof -
  have "x v * k * (x v * k) + y v * k * (y v * k) = k\<^sup>2 * (x v * x v + y v * y v)"
    by (simp add: power2_eq_square algebra_simps)
  then show ?thesis
    by (simp add: vectorLength_def scaleVector_def real_sqrt_mult)
qed


lemma subVectors_zero_iff: "subVectors a b = \<lparr>x = 0, y = 0\<rparr> \<longleftrightarrow> a = b"
  by (cases a, cases b) (simp add: subVectors_def)

subsection \<open>Bounce resolution\<close>




text \<open>
  In exact arithmetic, for a unit normal \<open>n\<close> and a velocity \<open>v\<close> with \<open>dot v n < 0\<close>, a
  wall at rest and damping \<open>1\<close>, the result is \<open>v - 2 * dot v n * n\<close>; its component along
  \<open>n\<close> is the negation of that of \<open>v\<close>, and its part orthogonal to \<open>n\<close> is that of \<open>v\<close>.
\<close>

lemma calculateBounceVelocity_elastic_exact:
  assumes "vectorLength n = 1" and "dotProduct v n < 0"
  shows "calculateBounceVelocity v n \<lparr>x = 0, y = 0\<rparr> 1
           = subVectors v (scaleVector n (2 * dotProduct v n)) \<and>
         dotProduct (calculateBounceVelocity v n \<lparr>x = 0, y = 0\<rparr> 1) n = - dotProduct v n \<and>
         subVectors (calculateBounceVelocity v n \<lparr>x = 0, y = 0\<rparr> 1)
            (scaleVector n (dotProduct (calculateBounceVelocity v n \<lparr>x = 0, y = 0\<rparr> 1) n))
           = subVectors v (scaleVector n (dotProduct v n))"
proof -
  let ?r = "calculateBounceVelocity v n \<lparr>x = 0, y = 0\<rparr> 1"
  have u: "x n * x n + y n * y n = 1"
    using assms(1) by (simp add: vectorLength_def)
  have r: "?r = \<lparr>x = x v - 2 * dotProduct v n * x n, y = y v - 2 * dotProduct v n * y n\<rparr>"
    using assms(2) by (simp add: calculateBounceVelocity_def dotProduct_def Let_def)
  have "dotProduct ?r n = dotProduct v n - 2 * dotProduct v n * (x n * x n + y n * y n)"
    unfolding r by (simp add: dotProduct_def algebra_simps)
  then have d: "dotProduct ?r n = - dotProduct v n"
    by (simp add: u)
  have t: "subVectors ?r (scaleVector n (dotProduct ?r n))
             = subVectors v (scaleVector n (dotProduct v n))"
    unfolding d unfolding r by (simp add: subVectors_def scaleVector_def algebra_simps)
  have r': "?r = subVectors v (scaleVector n (2 * dotProduct v n))"
    unfolding r by (simp add: subVectors_def scaleVector_def algebra_simps)
  from r' d t show ?thesis
    by blast
qed




subsection \<open>The minimum speed\<close>

text \<open>
  In exact arithmetic, a ball whose speed is strictly positive and strictly below
  \<open>minVelocity\<close> gets its velocity multiplied by the positive factor \<open>minVelocity / speed\<close>,
  after which its speed is \<open>minVelocity\<close>; at speed zero the velocity is the zero vector and
  stays; at a speed of at least \<open>minVelocity\<close> the ball is unchanged.
\<close>

lemma clampMinVelocity_cases_exact:
  "(0 < vectorLength (velocity b) \<and> vectorLength (velocity b) < minV \<longrightarrow>
      clampMinVelocity b minV
        = Some (b\<lparr>velocity := scaleVector (velocity b) (minV / vectorLength (velocity b))\<rparr>) \<and>
      0 < minV / vectorLength (velocity b) \<and>
      vectorLength (scaleVector (velocity b) (minV / vectorLength (velocity b))) = minV) \<and>
   (vectorLength (velocity b) = 0 \<longrightarrow>
      clampMinVelocity b minV = Some b \<and> velocity b = \<lparr>x = 0, y = 0\<rparr>) \<and>
   (vectorLength (velocity b) \<ge> minV \<longrightarrow> clampMinVelocity b minV = Some b)"
proof (intro conjI impI)
  assume a: "0 < vectorLength (velocity b) \<and> vectorLength (velocity b) < minV"
  let ?s = "vectorLength (velocity b)"
  from a show "clampMinVelocity b minV
                 = Some (b\<lparr>velocity := scaleVector (velocity b) (minV / ?s)\<rparr>)"
    by (simp add: clampMinVelocity_def Let_def js_div_Some scaleVector_def)
  from a show "0 < minV / ?s"
    by simp
  have "vectorLength (scaleVector (velocity b) (minV / ?s)) = \<bar>minV / ?s\<bar> * ?s"
    by (rule vectorLength_scaleVector)
  with a show "vectorLength (scaleVector (velocity b) (minV / ?s)) = minV"
    by simp
next
  assume z: "vectorLength (velocity b) = 0"
  then show "clampMinVelocity b minV = Some b"
    by (simp add: clampMinVelocity_def)
  from z show "velocity b = \<lparr>x = 0, y = 0\<rparr>"
    by (simp add: vectorLength_zero_iff)
next
  assume "minV \<le> vectorLength (velocity b)"
  then show "clampMinVelocity b minV = Some b"
    by (simp add: clampMinVelocity_def)
qed

subsection \<open>Closest point and collision detection\<close>

lemma Vector2D_eq_iff: "a = b \<longleftrightarrow> x a = x b \<and> y a = y b"
  for a b :: Vector2D
  by (cases a, cases b) simp

lemma pointToSegmentDistance_eq:
  "pointToSegmentDistance p s =
     Some \<lparr>distance = vectorLength (subVectors p (pointOnSegment s (clampedParameter p s))),
           closestPoint = pointOnSegment s (clampedParameter p s)\<rparr>"
  by (simp add: pointToSegmentDistance_def clampedParameter_def pointOnSegment_def
      subVectors_def vectorLength_def Let_def js_div_Some)

lemma circleSegmentCollision_far:
  assumes "rad \<le> vectorLength (subVectors c (pointOnSegment s (clampedParameter c s)))"
  shows "circleSegmentCollision c rad s
           = Some \<lparr>collided = False, normal = None, depth = None, contactPoint = None\<rparr>"
  using assms by (simp add: circleSegmentCollision_def pointToSegmentDistance_eq)

lemma circleSegmentCollision_near:
  assumes "vectorLength (subVectors c (pointOnSegment s (clampedParameter c s))) < rad"
  shows "circleSegmentCollision c rad s
           = Some \<lparr>collided = True,
                normal = Some (if c = pointOnSegment s (clampedParameter c s) then \<lparr>x = 0, y = 0\<rparr>
                   else \<lparr>x = x (subVectors c (pointOnSegment s (clampedParameter c s)))
                              / vectorLength (subVectors c (pointOnSegment s (clampedParameter c s))),
                         y = y (subVectors c (pointOnSegment s (clampedParameter c s)))
                              / vectorLength (subVectors c (pointOnSegment s (clampedParameter c s)))\<rparr>),
                depth = Some (rad - vectorLength (subVectors c (pointOnSegment s (clampedParameter c s)))),
                contactPoint = Some (pointOnSegment s (clampedParameter c s))\<rparr>"
proof -
  let ?cp = "pointOnSegment s (clampedParameter c s)"
  let ?n0 = "subVectors c ?cp"
  show ?thesis
  proof (cases "c = ?cp")
    case True
    then have z: "?n0 = \<lparr>x = 0, y = 0\<rparr>" by (simp add: subVectors_zero_iff)
    then have "vectorLength ?n0 = 0" by (simp add: vectorLength_zero_iff)
    with assms True z show ?thesis
      by (simp add: circleSegmentCollision_def pointToSegmentDistance_eq Let_def)
  next
    case False
    then have "?n0 \<noteq> \<lparr>x = 0, y = 0\<rparr>" by (simp add: subVectors_zero_iff)
    then have pos: "0 < vectorLength ?n0"
      using vectorLength_zero_iff[of ?n0] vectorLength_nonneg[of ?n0] by linarith
    with assms False show ?thesis
      by (simp add: circleSegmentCollision_def pointToSegmentDistance_eq Let_def
          vectorLength_def subVectors_def js_div_def)
        (simp add: Vector2D_eq_iff)
  qed
qed

lemma clamped_quadratic_minimal:
  fixes u w l :: real
  assumes "0 \<le> u" and "u \<le> 1" and "0 < l"
  defines "t \<equiv> max 0 (min 1 w)"
  shows "0 \<le> l * ((u - t) * (u + t - 2 * w))"
proof -
  consider "w \<le> 0" | "0 < w" "w < 1" | "1 \<le> w"
    by linarith
  then have "0 \<le> (u - t) * (u + t - 2 * w)"
  proof cases
    case 1
    then have "t = 0" by (simp add: t_def)
    moreover have "0 \<le> u * (u - 2 * w)"
      using 1 assms(1) by (intro mult_nonneg_nonneg) simp_all
    ultimately show ?thesis by simp
  next
    case 2
    then have "t = w" by (simp add: t_def)
    then show ?thesis by simp
  next
    case 3
    then have "t = 1" by (simp add: t_def)
    moreover have "0 \<le> (u - 1) * (u + 1 - 2 * w)"
      using 3 assms(2) by (intro mult_nonpos_nonpos) simp_all
    ultimately show ?thesis by simp
  qed
  with assms(3) show ?thesis by simp
qed

text \<open>
  The point at the clamped parameter is a closest point of the segment: no point of the
  segment is nearer to \<open>p\<close>.
\<close>

lemma pointToSegmentDistance_minimal:
  assumes "0 \<le> u" and "u \<le> 1"
  shows "vectorLength (subVectors p (pointOnSegment s (clampedParameter p s)))
           \<le> vectorLength (subVectors p (pointOnSegment s u))"
proof -
  define dx dy qx qy where "dx = x (endp s) - x (start s)" and "dy = y (endp s) - y (start s)"
    and "qx = x p - x (start s)" and "qy = y p - y (start s)"
  define l m where "l = dx * dx + dy * dy" and "m = qx * dx + qy * dy"
  define f where "f v = qx * qx + qy * qy - 2 * v * m + v * v * l" for v
  let ?t = "clampedParameter p s"
  have len: "vectorLength (subVectors p (pointOnSegment s v)) = sqrt (f v)" for v
    by (simp add: vectorLength_def subVectors_def pointOnSegment_def f_def l_def m_def
        dx_def dy_def qx_def qy_def algebra_simps)
  have diff: "f u - f ?t = (u - ?t) * (l * (u + ?t) - 2 * m)"
    by (simp add: f_def algebra_simps)
  have "0 \<le> f u - f ?t"
  proof (cases "l = 0")
    case True
    then have "dx = 0" and "dy = 0"
      by (simp_all add: l_def sum_squares_eq_zero_iff)
    then have "m = 0" by (simp add: m_def)
    with True diff show ?thesis by simp
  next
    case False
    have "0 \<le> l" by (simp add: l_def)
    with False have pos: "0 < l" by simp
    have t: "?t = max 0 (min 1 (m / l))"
      using False by (simp add: clampedParameter_def Let_def l_def m_def dx_def dy_def qx_def qy_def)
    define w where "w = m / l"
    have m: "m = l * w"
      using False by (simp add: w_def)
    have "f u - f ?t = l * ((u - ?t) * (u + ?t - 2 * w))"
      unfolding diff m by (simp add: algebra_simps)
    then show ?thesis
      unfolding t w_def [symmetric]
      using clamped_quadratic_minimal [OF assms pos, of w] by simp
  qed
  then have "f ?t \<le> f u" by simp
  then show ?thesis
    by (simp add: len)
qed

text \<open>
  In exact arithmetic, \<^verbatim>\<open>pointToSegmentDistance\<close> returns the point of the segment at the
  clamped projection parameter and its Euclidean distance to the centre, and
  \<^verbatim>\<open>circleSegmentCollision\<close> reports a collision exactly when that distance is strictly
  less than the radius.
\<close>

lemma circleSegmentCollision_collided_iff_exact:
  "\<exists>r col. pointToSegmentDistance c s = Some r \<and>
     closestPoint r = pointOnSegment s (clampedParameter c s) \<and>
     distance r = vectorLength (subVectors c (closestPoint r)) \<and>
     circleSegmentCollision c rad s = Some col \<and>
     collided col = (distance r < rad) \<and>
     circleSegmentCollision c (distance r) s
       = Some \<lparr>collided = False, normal = None, depth = None, contactPoint = None\<rparr>"
proof (cases "vectorLength (subVectors c (pointOnSegment s (clampedParameter c s))) < rad")
  case True
  then show ?thesis
    by (simp add: pointToSegmentDistance_eq circleSegmentCollision_near circleSegmentCollision_far)
next
  case False
  then show ?thesis
    by (simp add: pointToSegmentDistance_eq circleSegmentCollision_far)
qed

text \<open>
  In exact arithmetic the distance is never negative, and a radius that is zero or negative
  gives no collision.
\<close>

lemma circleSegmentCollision_nonpositive_radius_exact:
  assumes "rad \<le> 0"
  shows "circleSegmentCollision c rad s
           = Some \<lparr>collided = False, normal = None, depth = None, contactPoint = None\<rparr>"
proof -
  have "0 \<le> vectorLength (subVectors c (pointOnSegment s (clampedParameter c s)))"
    by (rule vectorLength_nonneg)
  with assms have "rad \<le> vectorLength (subVectors c (pointOnSegment s (clampedParameter c s)))"
    by linarith
  then show ?thesis
    by (rule circleSegmentCollision_far)
qed






subsection \<open>The edges of the hexagon and their normals\<close>

lemma getHexagonVertices_nth:
  assumes "i < 6"
  shows "getHexagonVertices h ! i =
           \<lparr>x = x (center h) + Hexagon.radius h * cos (rotation h + (pi / 3) * real i),
            y = y (center h) + Hexagon.radius h * sin (rotation h + (pi / 3) * real i)\<rparr>"
  using assms by (simp add: getHexagonVertices_def Let_def algebra_simps)

lemma getHexagonVertices_next:
  assumes "i < 6"
  shows "getHexagonVertices h ! ((i + 1) mod 6) =
           \<lparr>x = x (center h) + Hexagon.radius h * cos (rotation h + (pi / 3) * real i + pi / 3),
            y = y (center h) + Hexagon.radius h * sin (rotation h + (pi / 3) * real i + pi / 3)\<rparr>"
proof (cases "i = 5")
  case True
  have "rotation h + pi / 3 * real 5 + pi / 3 = rotation h + 2 * pi"
    by simp
  then have "cos (rotation h + pi / 3 * real 5 + pi / 3) = cos (rotation h)"
    and "sin (rotation h + pi / 3 * real 5 + pi / 3) = sin (rotation h)"
    by (simp_all only: cos_periodic sin_periodic)
  with True show ?thesis
    by (simp add: getHexagonVertices_nth)
next
  case False
  with assms have lt: "i + 1 < 6" by simp
  then have "(i + 1) mod 6 = i + 1" by simp
  moreover have "rotation h + pi / 3 * real (i + 1) = rotation h + pi / 3 * real i + pi / 3"
    by (simp add: algebra_simps)
  ultimately show ?thesis
    using lt by (simp only: getHexagonVertices_nth)
qed

lemma getHexagonEdges_nth:
  assumes "i < 6"
  shows "getHexagonEdges h ! i =
           \<lparr>start = getHexagonVertices h ! i, endp = getHexagonVertices h ! ((i + 1) mod 6)\<rparr>"
  using assms by (simp add: getHexagonEdges_def Let_def)

lemma getHexagonEdges_nth_angle:
  assumes "i < 6"
  shows "getHexagonEdges h ! i =
      \<lparr>start = \<lparr>x = x (center h) + Hexagon.radius h * cos (rotation h + (pi / 3) * real i),
                 y = y (center h) + Hexagon.radius h * sin (rotation h + (pi / 3) * real i)\<rparr>,
       endp = \<lparr>x = x (center h) + Hexagon.radius h * cos (rotation h + (pi / 3) * real i + pi / 3),
                y = y (center h) + Hexagon.radius h * sin (rotation h + (pi / 3) * real i + pi / 3)\<rparr>\<rparr>"
  unfolding getHexagonEdges_nth [OF assms] getHexagonVertices_next [OF assms]
    getHexagonVertices_nth [OF assms]
  by (rule refl)

lemma length_getHexagonEdges: "length (getHexagonEdges h) = 6"
  by (simp add: getHexagonEdges_def Let_def)

lemma length_getHexagonVertices: "length (getHexagonVertices h) = 6"
  by (simp add: getHexagonVertices_def)

lemma getEdgeNormal_eq:
  "getEdgeNormal e =
     (let ex = x (endp e) - x (start e); ey = y (endp e) - y (start e);
          len = sqrt (- ey * - ey + ex * ex)
      in if len > 0 then Some \<lparr>x = - ey / len, y = ex / len\<rparr> else Some \<lparr>x = - ey, y = ex\<rparr>)"
  by (simp add: getEdgeNormal_def Let_def js_div_def) (simp add: algebra_simps)

lemma scaled_squares: "(r * b) * (r * b) + (r * a) * (r * a) = r\<^sup>2 * (b * b + a * a)"
  for r a b :: real
  by (simp add: power2_eq_square algebra_simps)

lemma getEdgeNormal_hexagon_edge:
  fixes r a cx cy :: real
  assumes "0 < r"
  defines "e \<equiv> \<lparr>start = \<lparr>x = cx + r * cos a, y = cy + r * sin a\<rparr>,
                 endp = \<lparr>x = cx + r * cos (a + pi / 3), y = cy + r * sin (a + pi / 3)\<rparr>\<rparr>"
  shows "getEdgeNormal e =
           Some \<lparr>x = sin a / 2 - cos a * (sqrt 3 / 2), y = - (cos a / 2) - sin a * (sqrt 3 / 2)\<rparr>"
proof -
  let ?c = "cos a" and ?s = "sin a" and ?q = "sqrt 3"
  have q: "?q * ?q = 3" by simp
  have cs: "?s * ?s + ?c * ?c = 1" by (simp add: power2_eq_square[symmetric])
  have ca: "cos (a + pi / 3) = ?c / 2 - ?s * (?q / 2)"
    by (simp add: cos_add cos_60 sin_60)
  have sa: "sin (a + pi / 3) = ?s / 2 + ?c * (?q / 2)"
    by (simp add: sin_add cos_60 sin_60)
  let ?ex = "x (endp e) - x (start e)" and ?ey = "y (endp e) - y (start e)"
  have ex: "?ex = r * (- (?c / 2) - ?s * (?q / 2))"
    by (simp add: e_def ca algebra_simps)
  have ey: "?ey = r * (- (?s / 2) + ?c * (?q / 2))"
    by (simp add: e_def sa algebra_simps)
  let ?A = "- (?c / 2) - ?s * (?q / 2)" and ?B = "- (?s / 2) + ?c * (?q / 2)"
  have AB: "?B * ?B + ?A * ?A = 1"
    using cs by (simp add: algebra_simps)
  have "(r * ?B) * (r * ?B) + (r * ?A) * (r * ?A) = r\<^sup>2 * (?B * ?B + ?A * ?A)"
    by (rule scaled_squares)
  then have "- ?ey * - ?ey + ?ex * ?ex = r\<^sup>2"
    unfolding ex ey by (simp only: AB mult_1_right minus_mult_minus)
  then have len: "sqrt (- ?ey * - ?ey + ?ex * ?ex) = r"
    using assms(1) by simp
  have nx: "- ?ey / r = ?s / 2 - ?c * (?q / 2)"
    unfolding ey using assms(1) by (simp add: field_simps)
  have ny: "?ex / r = - (?c / 2) - ?s * (?q / 2)"
    unfolding ex using assms(1) by (simp add: field_simps)
  show ?thesis
    unfolding getEdgeNormal_eq Let_def len using assms(1) by (simp only: nx ny if_True)
qed

lemma hexagon_edge_normal_facts:
  fixes r a cx cy :: real
  defines "e \<equiv> \<lparr>start = \<lparr>x = cx + r * cos a, y = cy + r * sin a\<rparr>,
                 endp = \<lparr>x = cx + r * cos (a + pi / 3), y = cy + r * sin (a + pi / 3)\<rparr>\<rparr>"
    and "n \<equiv> \<lparr>x = sin a / 2 - cos a * (sqrt 3 / 2), y = - (cos a / 2) - sin a * (sqrt 3 / 2)\<rparr>"
  shows "vectorLength n = 1"
    and "dotProduct n (subVectors (endp e) (start e)) = 0"
    and "dotProduct n (subVectors (scaleVector (addVectors (start e) (endp e)) (1 / 2))
            \<lparr>x = cx, y = cy\<rparr>) = - (r * sqrt 3 / 2)"
proof -
  define c s q where "c = cos a" and "s = sin a" and "q = sqrt 3"
  have cs: "s * s + c * c = 1"
    by (simp add: c_def s_def power2_eq_square[symmetric])
  have qq: "q * q = 3"
    by (simp add: q_def)
  have ca: "cos (a + pi / 3) = c / 2 - s * (q / 2)"
    unfolding c_def s_def q_def by (simp only: cos_add cos_60 sin_60)
  have sa: "sin (a + pi / 3) = s / 2 + c * (q / 2)"
    unfolding c_def s_def q_def by (simp only: sin_add cos_60 sin_60)
  have n: "n = \<lparr>x = s / 2 - c * (q / 2), y = - (c / 2) - s * (q / 2)\<rparr>"
    by (simp only: n_def c_def s_def q_def)
  have e: "e = \<lparr>start = \<lparr>x = cx + r * c, y = cy + r * s\<rparr>,
                endp = \<lparr>x = cx + r * (c / 2 - s * (q / 2)), y = cy + r * (s / 2 + c * (q / 2))\<rparr>\<rparr>"
    unfolding e_def ca sa by (simp only: c_def s_def)
  have "x n * x n + y n * y n = (s * s + c * c) * ((1 + q * q) / 4)"
    unfolding n by (simp add: algebra_simps)
  then have "x n * x n + y n * y n = 1"
    by (simp only: cs qq) simp
  then show "vectorLength n = 1"
    by (simp add: vectorLength_def)
  show "dotProduct n (subVectors (endp e) (start e)) = 0"
    unfolding e n by (simp add: dotProduct_def subVectors_def algebra_simps)
  have "dotProduct n (subVectors (scaleVector (addVectors (start e) (endp e)) (1 / 2))
            \<lparr>x = cx, y = cy\<rparr>) = - (r * q / 2) * (s * s + c * c)"
    unfolding e n
    by (simp add: dotProduct_def subVectors_def scaleVector_def addVectors_def algebra_simps)
  then show "dotProduct n (subVectors (scaleVector (addVectors (start e) (endp e)) (1 / 2))
            \<lparr>x = cx, y = cy\<rparr>) = - (r * sqrt 3 / 2)"
    by (simp only: cs mult_1_right q_def)
qed

text \<open>
  Claim C2 does not hold of the code. For a hexagon of positive radius and each of the six
  edges of \<^verbatim>\<open>getHexagonEdges\<close>, \<^verbatim>\<open>getEdgeNormal\<close> returns a unit vector perpendicular to
  the edge, but its dot product with the vector from the centre of the hexagon to the
  midpoint of the edge is \<open>- radius * sqrt 3 / 2\<close>: the vector points into the hexagon,
  where the function's own comment promises the outward normal.
\<close>

theorem getEdgeNormal_points_inward:
  assumes "0 < Hexagon.radius h" and "i < 6"
  shows "\<exists>n. getEdgeNormal (getHexagonEdges h ! i) = Some n \<and>
           vectorLength n = 1 \<and>
           dotProduct n (subVectors (endp (getHexagonEdges h ! i)) (start (getHexagonEdges h ! i))) = 0 \<and>
           dotProduct n (subVectors
              (scaleVector (addVectors (start (getHexagonEdges h ! i)) (endp (getHexagonEdges h ! i))) (1 / 2))
              (center h)) = - (Hexagon.radius h * sqrt 3 / 2) \<and>
           dotProduct n (subVectors
              (scaleVector (addVectors (start (getHexagonEdges h ! i)) (endp (getHexagonEdges h ! i))) (1 / 2))
              (center h)) < 0"
proof -
  let ?a = "rotation h + (pi / 3) * real i"
  let ?r = "Hexagon.radius h"
  let ?n = "\<lparr>x = sin ?a / 2 - cos ?a * (sqrt 3 / 2), y = - (cos ?a / 2) - sin ?a * (sqrt 3 / 2)\<rparr>"
  have c: "center h = \<lparr>x = x (center h), y = y (center h)\<rparr>"
    by simp
  have e: "getHexagonEdges h ! i =
      \<lparr>start = \<lparr>x = x (center h) + ?r * cos ?a, y = y (center h) + ?r * sin ?a\<rparr>,
       endp = \<lparr>x = x (center h) + ?r * cos (?a + pi / 3), y = y (center h) + ?r * sin (?a + pi / 3)\<rparr>\<rparr>"
    by (rule getHexagonEdges_nth_angle [OF assms(2)])
  have n: "getEdgeNormal (getHexagonEdges h ! i) = Some ?n"
    unfolding e by (rule getEdgeNormal_hexagon_edge [OF assms(1)])
  have u: "vectorLength ?n = 1"
    by (rule hexagon_edge_normal_facts(1))
  have p: "dotProduct ?n (subVectors (endp (getHexagonEdges h ! i)) (start (getHexagonEdges h ! i))) = 0"
    unfolding e by (rule hexagon_edge_normal_facts(2))
  have d: "dotProduct ?n (subVectors
              (scaleVector (addVectors (start (getHexagonEdges h ! i)) (endp (getHexagonEdges h ! i))) (1 / 2))
              (center h)) = - (?r * sqrt 3 / 2)"
    unfolding e by (subst (3) c) (rule hexagon_edge_normal_facts(3))
  have "0 < ?r * sqrt 3 / 2" using assms(1) by simp
  with n u p d show ?thesis by simp
qed

theorem getEdgeNormal_points_inward_witness:
  "0 < Hexagon.radius \<lparr>center = \<lparr>x = 0, y = 0\<rparr>, radius = 1, rotation = 0\<rparr> \<and> (1::nat) < 6 \<and>
   getHexagonEdges \<lparr>center = \<lparr>x = 0, y = 0\<rparr>, radius = 1, rotation = 0\<rparr> ! 1
     = \<lparr>start = \<lparr>x = 1 / 2, y = sqrt 3 / 2\<rparr>, endp = \<lparr>x = - (1 / 2), y = sqrt 3 / 2\<rparr>\<rparr> \<and>
   getEdgeNormal \<lparr>start = \<lparr>x = 1 / 2, y = sqrt 3 / 2\<rparr>, endp = \<lparr>x = - (1 / 2), y = sqrt 3 / 2\<rparr>\<rparr>
     = Some \<lparr>x = 0, y = - 1\<rparr> \<and>
   dotProduct \<lparr>x = 0, y = - 1\<rparr>
     (subVectors (scaleVector (addVectors \<lparr>x = 1 / 2, y = sqrt 3 / 2\<rparr> \<lparr>x = - (1 / 2), y = sqrt 3 / 2\<rparr>) (1 / 2))
        \<lparr>x = 0, y = 0\<rparr>) < 0"
proof -
  let ?h = "\<lparr>center = \<lparr>x = 0, y = 0\<rparr>, radius = 1, rotation = 0\<rparr>"
  have e: "getHexagonEdges ?h ! 1
     = \<lparr>start = \<lparr>x = 1 / 2, y = sqrt 3 / 2\<rparr>, endp = \<lparr>x = - (1 / 2), y = sqrt 3 / 2\<rparr>\<rparr>"
    by (simp add: getHexagonEdges_def getHexagonVertices_def Let_def cos_60 sin_60 cos_120' sin_120')
  have n: "getEdgeNormal \<lparr>start = \<lparr>x = 1 / 2, y = sqrt 3 / 2\<rparr>, endp = \<lparr>x = - (1 / 2), y = sqrt 3 / 2\<rparr>\<rparr>
     = Some \<lparr>x = 0, y = - 1\<rparr>"
    by (simp add: getEdgeNormal_def Let_def js_div_def)
  have h1: "0 < Hexagon.radius ?h" and h2: "(1::nat) < 6"
    by simp_all
  from getEdgeNormal_points_inward [OF h1 h2] show ?thesis
    unfolding e by (simp add: n)
qed

subsection \<open>The update of the game loop\<close>

lemma circleSegmentCollision_total: "\<exists>col. circleSegmentCollision c rad s = Some col"
proof (cases "vectorLength (subVectors c (pointOnSegment s (clampedParameter c s))) < rad")
  case True
  then show ?thesis by (simp add: circleSegmentCollision_near)
next
  case False
  then show ?thesis by (simp add: circleSegmentCollision_far)
qed

lemma handleEdge_total: "\<exists>b'. handleEdge h w d b e = Some b'"
proof -
  obtain col where "circleSegmentCollision (position b) (Ball.radius b) e = Some col"
    using circleSegmentCollision_total by blast
  then show ?thesis
    by (simp add: handleEdge_def Let_def split: bool.split option.split)
qed

lemma handleCollisions_loop_total: "\<exists>b'. handleCollisions_loop h w d b es = Some b'"
proof (induction es arbitrary: b)
  case Nil
  show ?case by simp
next
  case (Cons e es)
  obtain b1 where "handleEdge h w d b e = Some b1"
    using handleEdge_total by blast
  with Cons.IH [of b1] show ?case by simp
qed

lemma handleCollisions_total: "\<exists>b'. handleCollisions b h w d = Some b'"
proof -
  obtain b1 where "handleCollisions_loop h w d b (getHexagonEdges h) = Some b1"
    using handleCollisions_loop_total by blast
  then show ?thesis
    by (simp add: handleCollisions_def Let_def js_div_def)
qed

lemma clampMinVelocity_total: "\<exists>b'. clampMinVelocity b m = Some b'"
  by (simp add: clampMinVelocity_def Let_def js_div_def)

text \<open>The update never divides by zero: it returns a ball and the hexagon, rotated when the
  guard holds.\<close>

lemma gameLoop_total:
  "\<exists>b'. gameLoop isPaused b h p w dt
          = Some (b', if \<not> isPaused \<and> dt > 0 then h\<lparr>rotation := rotation h + w * dt\<rparr> else h)"
proof (cases "\<not> isPaused \<and> dt > 0")
  case True
  let ?h1 = "h\<lparr>rotation := rotation h + w * dt\<rparr>"
  let ?b3 = "updateBallPosition (applyAirFriction (applyGravity b (gravity p) dt) (airFriction p) dt) dt"
  obtain b4 where b4: "handleCollisions ?b3 ?h1 w (bounceDamping p) = Some b4"
    using handleCollisions_total by blast
  obtain b5 where b5: "clampMinVelocity b4 (minVelocity p) = Some b5"
    using clampMinVelocity_total by blast
  from True b4 b5 show ?thesis
    by (simp add: gameLoop_def Let_def)
next
  case False
  then show ?thesis
    by (auto simp add: gameLoop_def)
qed

text \<open>
  Claim C3. With \<open>deltaTime = 0\<close> the guard \<^verbatim>\<open>!isPaused && deltaTime > 0\<close> of the game loop
  fails, whatever the ball, the hexagon, the physics parameters and the angular velocity,
  paused or not: the update of the loop leaves the ball (its position and velocity) and the
  hexagon (its rotation) exactly as they were.
\<close>

theorem gameLoop_zero_deltaTime:
  "gameLoop isPaused ball hexagon params rotationSpeed 0 = Some (ball, hexagon)"
  by (simp add: gameLoop_def)

text \<open>
  A ball resting on the centre of the hexagon, of a radius up to the apothem, touches no
  edge, and the centre is inside the hexagon: collision handling leaves such a ball as it is.
\<close>

lemma hexagon_center_edge_facts:
  fixes r a cx cy :: real
  assumes r: "0 < r"
  defines "e \<equiv> \<lparr>start = \<lparr>x = cx + r * cos a, y = cy + r * sin a\<rparr>,
                 endp = \<lparr>x = cx + r * cos (a + pi / 3), y = cy + r * sin (a + pi / 3)\<rparr>\<rparr>"
    and "c0 \<equiv> \<lparr>x = cx, y = cy\<rparr>"
  shows "clampedParameter c0 e = 1 / 2"
    and "vectorLength (subVectors c0 (pointOnSegment e (clampedParameter c0 e))) = r * sqrt 3 / 2"
    and "(x (endp e) - x (start e)) * (y c0 - y (start e))
          - (y (endp e) - y (start e)) * (x c0 - x (start e)) = r\<^sup>2 * sqrt 3 / 2"
proof -
  define c s q where "c = cos a" and "s = sin a" and "q = sqrt 3"
  have cs: "s * s + c * c = 1"
    by (simp add: c_def s_def power2_eq_square[symmetric])
  have qq: "q * q = 3"
    by (simp add: q_def)
  have ca: "cos (a + pi / 3) = c / 2 - s * (q / 2)"
    unfolding c_def s_def q_def by (simp only: cos_add cos_60 sin_60)
  have sa: "sin (a + pi / 3) = s / 2 + c * (q / 2)"
    unfolding c_def s_def q_def by (simp only: sin_add cos_60 sin_60)
  have e: "e = \<lparr>start = \<lparr>x = cx + r * c, y = cy + r * s\<rparr>,
                endp = \<lparr>x = cx + r * (c / 2 - s * (q / 2)), y = cy + r * (s / 2 + c * (q / 2))\<rparr>\<rparr>"
    unfolding e_def ca sa by (simp only: c_def s_def)
  let ?dx = "x (endp e) - x (start e)" and ?dy = "y (endp e) - y (start e)"
  let ?A = "- (c / 2) - s * (q / 2)" and ?B = "- (s / 2) + c * (q / 2)"
  have dx: "?dx = r * ?A" and dy: "?dy = r * ?B"
    unfolding e by (simp_all add: algebra_simps)
  have "?B * ?B + ?A * ?A = (s * s + c * c) * ((1 + q * q) / 4)"
    by (simp add: algebra_simps)
  then have AB: "?B * ?B + ?A * ?A = 1"
    by (simp only: cs qq) simp
  have "?dx * ?dx + ?dy * ?dy = r\<^sup>2 * (?B * ?B + ?A * ?A)"
    unfolding dx dy by (simp add: power2_eq_square algebra_simps)
  then have len2: "?dx * ?dx + ?dy * ?dy = r\<^sup>2"
    by (simp only: AB mult_1_right)
  have "(x c0 - x (start e)) * ?dx + (y c0 - y (start e)) * ?dy = r\<^sup>2 * ((s * s + c * c) / 2)"
    unfolding e c0_def by (simp add: power2_eq_square algebra_simps)
  then have num: "(x c0 - x (start e)) * ?dx + (y c0 - y (start e)) * ?dy = r\<^sup>2 / 2"
    by (simp add: cs)
  show t: "clampedParameter c0 e = 1 / 2"
    unfolding clampedParameter_def Let_def
    by (simp only: len2 num) (use r in simp)
  have "x (subVectors c0 (pointOnSegment e (1 / 2))) * x (subVectors c0 (pointOnSegment e (1 / 2)))
        + y (subVectors c0 (pointOnSegment e (1 / 2))) * y (subVectors c0 (pointOnSegment e (1 / 2)))
        = r\<^sup>2 * ((s * s + c * c) * ((9 + q * q) / 16))"
    unfolding e c0_def by (simp add: subVectors_def pointOnSegment_def power2_eq_square algebra_simps)
  also have "\<dots> = (r * sqrt 3 / 2)\<^sup>2"
    by (simp only: cs qq) (simp add: power2_eq_square)
  finally show "vectorLength (subVectors c0 (pointOnSegment e (clampedParameter c0 e))) = r * sqrt 3 / 2"
    unfolding t vectorLength_def using r by (simp only: real_sqrt_abs) simp
  have "?dx * (y c0 - y (start e)) - ?dy * (x c0 - x (start e)) = r\<^sup>2 * (q / 2) * (s * s + c * c)"
    unfolding e c0_def by (simp add: power2_eq_square algebra_simps)
  then show "?dx * (y c0 - y (start e)) - ?dy * (x c0 - x (start e)) = r\<^sup>2 * sqrt 3 / 2"
    by (simp add: cs q_def)
qed

lemma handleEdge_centered:
  assumes "0 < Hexagon.radius h" and "i < 6" and "position b = center h"
    and "Ball.radius b \<le> Hexagon.radius h * sqrt 3 / 2"
  shows "handleEdge h w d b (getHexagonEdges h ! i) = Some b"
proof -
  have c: "center h = \<lparr>x = x (center h), y = y (center h)\<rparr>"
    by simp
  have "vectorLength (subVectors (center h)
          (pointOnSegment (getHexagonEdges h ! i) (clampedParameter (center h) (getHexagonEdges h ! i))))
        = Hexagon.radius h * sqrt 3 / 2"
    unfolding getHexagonEdges_nth_angle [OF assms(2)]
    by (subst (1 3) c) (rule hexagon_center_edge_facts(2) [OF assms(1)])
  with assms(3,4) have "circleSegmentCollision (position b) (Ball.radius b) (getHexagonEdges h ! i)
      = Some \<lparr>collided = False, normal = None, depth = None, contactPoint = None\<rparr>"
    by (intro circleSegmentCollision_far) simp
  then show ?thesis
    by (simp add: handleEdge_def)
qed

lemma handleCollisions_loop_unchanged:
  assumes "\<And>e. e \<in> set es \<Longrightarrow> handleEdge h w d b e = Some b"
  shows "handleCollisions_loop h w d b es = Some b"
  using assms by (induction es) simp_all

lemma isPointInHexagon_loop_inside:
  assumes "\<And>i. i \<in> set js \<Longrightarrow>
     0 \<le> (x (vs ! ((i + 1) mod 6)) - x (vs ! i)) * (y p - y (vs ! i))
          - (y (vs ! ((i + 1) mod 6)) - y (vs ! i)) * (x p - x (vs ! i))"
  shows "isPointInHexagon_loop vs p js"
  using assms by (induction js) (simp_all add: Let_def not_less [symmetric])

lemma isPointInHexagon_center:
  assumes "0 < Hexagon.radius h"
  shows "isPointInHexagon (center h) h"
  unfolding isPointInHexagon_def
proof (rule isPointInHexagon_loop_inside)
  fix i assume "i \<in> set [0..<6]"
  then have i: "i < 6" by simp
  have c: "center h = \<lparr>x = x (center h), y = y (center h)\<rparr>"
    by simp
  let ?e = "getHexagonEdges h ! i"
  have eq: "(x (endp ?e) - x (start ?e)) * (y (center h) - y (start ?e))
          - (y (endp ?e) - y (start ?e)) * (x (center h) - x (start ?e))
        = (Hexagon.radius h)\<^sup>2 * sqrt 3 / 2"
    unfolding getHexagonEdges_nth_angle [OF i]
    by (subst (1 4) c) (rule hexagon_center_edge_facts(3) [OF assms])
  have nonneg: "0 \<le> (Hexagon.radius h)\<^sup>2 * sqrt 3 / 2"
    by simp
  have "0 \<le> (x (endp ?e) - x (start ?e)) * (y (center h) - y (start ?e))
          - (y (endp ?e) - y (start ?e)) * (x (center h) - x (start ?e))"
    by (subst eq) (rule nonneg)
  then show "0 \<le> (x (getHexagonVertices h ! ((i + 1) mod 6)) - x (getHexagonVertices h ! i))
            * (y (center h) - y (getHexagonVertices h ! i))
          - (y (getHexagonVertices h ! ((i + 1) mod 6)) - y (getHexagonVertices h ! i))
            * (x (center h) - x (getHexagonVertices h ! i))"
    by (simp only: getHexagonEdges_nth [OF i] LineSegment.select_convs)
qed

lemma handleCollisions_centered:
  assumes "0 < Hexagon.radius h" and "position b = center h"
    and "Ball.radius b \<le> Hexagon.radius h * sqrt 3 / 2"
  shows "handleCollisions b h w d = Some b"
proof -
  have "handleEdge h w d b e = Some b" if "e \<in> set (getHexagonEdges h)" for e
  proof -
    from that obtain i where "i < 6" and "e = getHexagonEdges h ! i"
      by (auto simp add: in_set_conv_nth length_getHexagonEdges)
    then show ?thesis
      using handleEdge_centered [OF assms(1) _ assms(2,3)] by simp
  qed
  then have "handleCollisions_loop h w d b (getHexagonEdges h) = Some b"
    by (rule handleCollisions_loop_unchanged)
  then show ?thesis
    using isPointInHexagon_center [OF assms(1)] assms(2)
    by (simp add: handleCollisions_def)
qed

section \<open>Properties of the double-precision embedding\<close>

subsection \<open>Rounding\<close>

lemma rne_of_int [simp]: "rne (of_int n) = n"
  by (simp add: rne_def)

lemma rne_le: "q \<le> of_int n \<Longrightarrow> rne q \<le> n"
proof -
  assume a: "q \<le> of_int n"
  have f: "of_int \<lfloor>q\<rfloor> \<le> q" "q < of_int \<lfloor>q\<rfloor> + 1"
    by linarith+
  show ?thesis
  proof (cases "\<lfloor>q\<rfloor> < n")
    case True
    then show ?thesis by (simp add: rne_def Let_def)
  next
    case False
    moreover from a have "\<lfloor>q\<rfloor> \<le> n" by (simp add: floor_le_iff)
    ultimately have "\<lfloor>q\<rfloor> = n" by simp
    with a f have "q = of_int n" by linarith
    then show ?thesis by simp
  qed
qed

lemma rne_ge: "of_int n \<le> q \<Longrightarrow> n \<le> rne q"
proof -
  assume "of_int n \<le> q"
  then have "n \<le> \<lfloor>q\<rfloor>" by (simp add: le_floor_iff)
  then show ?thesis by (simp add: rne_def Let_def)
qed

lemma two_powr_int: "0 \<le> j \<Longrightarrow> (2::real) powr of_int j = of_int (2 ^ nat j)"
  by (simp add: powr_real_of_int)

lemma floor_log2_bounds:
  assumes "0 < r"
  shows "2 powr of_int \<lfloor>log 2 r\<rfloor> \<le> r" and "r < 2 powr (of_int \<lfloor>log 2 r\<rfloor> + 1)"
  using floor_log_eq_powr_iff [of r 2 "\<lfloor>log 2 r\<rfloor>"] assms by simp_all

lemma floor_log2_ge: "0 < r \<Longrightarrow> 2 powr of_int k \<le> r \<Longrightarrow> k \<le> \<lfloor>log 2 r\<rfloor>"
  by (simp add: le_floor_iff le_log_iff)

lemma floor_log2_less: "0 < r \<Longrightarrow> r < 2 powr of_int k \<Longrightarrow> \<lfloor>log 2 r\<rfloor> < k"
  by (simp add: floor_less_iff log_less_iff)

lemma two_powr_diff: "(2::real) powr of_int k / 2 powr of_int e = 2 powr of_int (k - e)"
  by (simp add: powr_diff)

lemma two_powr_split: "(2::real) powr of_int k = 2 powr of_int (k - c) * 2 powr of_int c"
  by (simp add: powr_add [symmetric])

lemma ulp_exp_pos:
  assumes "0 < r"
  shows "ulp_exp r = max (\<lfloor>log 2 r\<rfloor> - 52) (- 1074)"
  using assms by (simp add: ulp_exp_def)

lemma round_real_pos:
  assumes "0 < r"
  shows "round_real r = of_int (rne (r / 2 powr of_int (ulp_exp r))) * 2 powr of_int (ulp_exp r)"
  using assms by (simp add: round_real_def)

lemma round_real_minus: "round_real (- r) = - round_real r"
  by (simp add: round_real_def ulp_exp_def sgn_minus)

lemma round_real_ge_pow2_aux:
  assumes "0 < r" and "2 powr of_int k \<le> r" and "ulp_exp r \<le> k"
  shows "2 powr of_int k \<le> round_real r"
proof -
  let ?e = "ulp_exp r"
  have "(2::real) powr of_int (k - ?e) = of_int (2 ^ nat (k - ?e))"
    using assms(3) by (intro two_powr_int) simp
  moreover have "(2::real) powr of_int (k - ?e) \<le> r / 2 powr of_int ?e"
    unfolding two_powr_diff [symmetric] using assms(2) by (simp add: divide_right_mono)
  ultimately have "2 ^ nat (k - ?e) \<le> rne (r / 2 powr of_int ?e)"
    by (intro rne_ge) simp
  then have "(of_int (2 ^ nat (k - ?e)) :: real) \<le> of_int (rne (r / 2 powr of_int ?e))"
    by (simp only: of_int_le_iff)
  then have "(2::real) powr of_int (k - ?e) * 2 powr of_int ?e \<le> round_real r"
    unfolding round_real_pos [OF assms(1)]
    using \<open>(2::real) powr of_int (k - ?e) = of_int (2 ^ nat (k - ?e))\<close>
    by (simp add: mult_right_mono)
  then show ?thesis
    by (simp add: powr_add [symmetric])
qed

lemma round_real_ge_pow2:
  assumes "- 1074 \<le> k" and "2 powr of_int k \<le> r"
  shows "2 powr of_int k \<le> round_real r"
proof -
  have r: "0 < r"
    using assms(2) by (rule less_le_trans [rotated]) simp
  let ?L = "\<lfloor>log 2 r\<rfloor>"
  have kL: "k \<le> ?L"
    using r assms(2) by (rule floor_log2_ge)
  have "ulp_exp r \<le> ?L"
    using assms(1) kL unfolding ulp_exp_pos [OF r] by linarith
  with r floor_log2_bounds(1) [OF r] have "(2::real) powr of_int ?L \<le> round_real r"
    by (rule round_real_ge_pow2_aux)
  moreover have "(2::real) powr of_int k \<le> 2 powr of_int ?L"
    using kL by simp
  ultimately show ?thesis
    by linarith
qed

lemma round_real_le_pow2:
  assumes "- 1074 \<le> k" and "0 < r" and "r \<le> 2 powr of_int k"
  shows "round_real r \<le> 2 powr of_int k"
proof -
  let ?L = "\<lfloor>log 2 r\<rfloor>" and ?e = "ulp_exp r"
  have "(2::real) powr of_int ?L \<le> 2 powr of_int k"
    using floor_log2_bounds(1) [OF assms(2)] assms(3) by linarith
  then have "?L \<le> k"
    by simp
  with assms(1) have e: "?e \<le> k"
    unfolding ulp_exp_pos [OF assms(2)] by linarith
  have p: "(2::real) powr of_int (k - ?e) = of_int (2 ^ nat (k - ?e))"
    using e by (intro two_powr_int) simp
  have "r / 2 powr of_int ?e \<le> 2 powr of_int (k - ?e)"
    unfolding two_powr_diff [symmetric] using assms(3) by (simp add: divide_right_mono)
  then have "rne (r / 2 powr of_int ?e) \<le> 2 ^ nat (k - ?e)"
    unfolding p by (rule rne_le)
  then have "(of_int (rne (r / 2 powr of_int ?e)) :: real) \<le> of_int (2 ^ nat (k - ?e))"
    by (simp only: of_int_le_iff)
  then have "round_real r \<le> 2 powr of_int (k - ?e) * 2 powr of_int ?e"
    unfolding round_real_pos [OF assms(2)] p by (simp add: mult_right_mono)
  then show ?thesis
    by (simp add: powr_add [symmetric])
qed

lemma round_real_pow2: "- 1074 \<le> k \<Longrightarrow> round_real (2 powr of_int k) = 2 powr of_int k"
  using round_real_ge_pow2 [of k "2 powr of_int k"] round_real_le_pow2 [of k "2 powr of_int k"]
  by (simp add: order_antisym)

lemma round_real_nonneg: "0 \<le> r \<Longrightarrow> 0 \<le> round_real r"
proof -
  assume "0 \<le> r"
  show ?thesis
  proof (cases "r = 0")
    case True
    then show ?thesis by (simp add: round_real_def)
  next
    case False
    with \<open>0 \<le> r\<close> have r: "0 < r" by simp
    have "0 \<le> r / 2 powr of_int (ulp_exp r)"
      using r by simp
    then have "0 \<le> rne (r / 2 powr of_int (ulp_exp r))"
      by (intro rne_ge) simp
    then show ?thesis
      unfolding round_real_pos [OF r] by simp
  qed
qed


lemma round_real_exact_pos:
  assumes "r = of_int m * 2 powr of_int e" and "0 < m" and "m < 2 ^ 53" and "- 1074 \<le> e"
  shows "round_real r = r"
proof -
  have r: "0 < r"
    unfolding assms(1) using assms(2) by simp
  have "of_int m < (2::real) ^ 53"
    using assms(3) by (metis of_int_less_iff of_int_numeral of_int_power)
  then have "r < 2 ^ 53 * 2 powr of_int e"
    unfolding assms(1) by (simp add: mult_strict_right_mono)
  also have "\<dots> = 2 powr of_int (53 + e)"
    by (simp add: powr_add)
  finally have "\<lfloor>log 2 r\<rfloor> < 53 + e"
    using r by (intro floor_log2_less)
  with assms(4) have e': "ulp_exp r \<le> e"
    unfolding ulp_exp_pos [OF r] by linarith
  let ?e' = "ulp_exp r"
  have p: "(2::real) powr of_int (e - ?e') = of_int (2 ^ nat (e - ?e'))"
    using e' by (intro two_powr_int) simp
  have "r / 2 powr of_int ?e' = of_int m * 2 powr of_int (e - ?e')"
    unfolding assms(1) two_powr_diff [symmetric] by simp
  also have "\<dots> = of_int (m * 2 ^ nat (e - ?e'))"
    unfolding p by simp
  finally have "rne (r / 2 powr of_int ?e') = m * 2 ^ nat (e - ?e')"
    by (simp only: rne_of_int)
  then have "round_real r = of_int m * (2 powr of_int (e - ?e') * 2 powr of_int ?e')"
    unfolding round_real_pos [OF r] using p by simp
  also have "\<dots> = r"
    unfolding assms(1) by (simp add: powr_add [symmetric])
  finally show ?thesis .
qed

lemma round_real_exact:
  assumes "representable r"
  shows "round_real r = r"
proof -
  from assms obtain m e where r: "r = of_int m * 2 powr of_int e"
    and m: "\<bar>m\<bar> < 2 ^ 53" and e: "- 1074 \<le> e"
    by (auto simp add: representable_def)
  consider "m = 0" | "0 < m" | "m < 0"
    by linarith
  then show ?thesis
  proof cases
    case 1
    with r show ?thesis by (simp add: round_real_def)
  next
    case 2
    with m have "m < 2 ^ 53" by simp
    with r 2 e show ?thesis by (intro round_real_exact_pos)
  next
    case 3
    with m have "- m < 2 ^ 53" and "0 < - m" by simp_all
    moreover have "- r = of_int (- m) * 2 powr of_int e"
      using r by simp
    ultimately have "round_real (- r) = - r"
      using e by (intro round_real_exact_pos [of "- r" "- m" e])
    then show ?thesis
      by (simp add: round_real_minus)
  qed
qed

lemma representable_abs_less:
  assumes "representable r"
  shows "\<bar>r\<bar> < 2 ^ 1024"
proof -
  from assms obtain m e where r: "r = of_int m * 2 powr of_int e"
    and m: "\<bar>m\<bar> < 2 ^ 53" and e: "e \<le> 971"
    by (auto simp add: representable_def)
  have "\<bar>of_int m\<bar> < (2::real) ^ 53"
    using m by (metis of_int_abs of_int_less_iff of_int_numeral of_int_power)
  moreover have "(2::real) powr of_int e \<le> 2 powr of_int 971"
    using e by (intro powr_mono) simp_all
  ultimately have "\<bar>of_int m\<bar> * 2 powr of_int e < 2 ^ 53 * (2::real) powr of_int 971"
    by (intro mult_less_le_imp_less) simp_all
  also have "\<dots> = 2 ^ 1024"
    by (simp add: powr_real_of_int)
  finally show ?thesis
    unfolding r by (simp add: abs_mult)
qed

lemma rnd_exact: "representable r \<Longrightarrow> rnd r = Fin r"
  using representable_abs_less [of r] by (simp add: rnd_def round_real_exact Let_def) linarith

lemma representable_0 [simp]: "representable 0"
  unfolding representable_def by (intro exI [of _ 0] exI [of _ 0]) simp

lemma representable_minus: "representable r \<Longrightarrow> representable (- r)"
  unfolding representable_def
  by (elim exE conjE) (rule_tac x = "- m" in exI, rule_tac x = e in exI, simp)

lemma representable_pow2:
  assumes "- 1074 \<le> k" and "k \<le> 1023"
  shows "representable (2 powr of_int k)"
proof (cases "k \<le> 971")
  case True
  with assms(1) show ?thesis
    unfolding representable_def by (intro exI [of _ 1] exI [of _ k]) simp
next
  case False
  then have k: "0 \<le> k - 971" "nat (k - 971) \<le> 52"
    using assms(2) by simp_all
  have "(2::real) powr of_int k = 2 powr of_int (k - 971) * 2 powr of_int 971"
    by (rule two_powr_split)
  also have "\<dots> = of_int (2 ^ nat (k - 971)) * 2 powr of_int 971"
    using k(1) by (simp only: two_powr_int)
  finally have "(2::real) powr of_int k = of_int (2 ^ nat (k - 971)) * 2 powr of_int 971" .
  moreover have "(2::int) ^ nat (k - 971) \<le> 2 ^ 52"
    using k(2) by (intro power_increasing) simp_all
  then have "\<bar>(2::int) ^ nat (k - 971)\<bar> < 2 ^ 53"
    by simp
  ultimately show ?thesis
    unfolding representable_def by (intro exI [of _ "2 ^ nat (k - 971)"] exI [of _ 971]) simp
qed

lemma representable_1 [simp]: "representable 1"
  using representable_pow2 [of 0] by simp

lemma representable_2 [simp]: "representable 2"
  using representable_pow2 [of 1] by simp

lemma representable_double:
  assumes "representable r" and "\<bar>r\<bar> < 2 ^ 1023"
  shows "representable (2 * r)"
proof -
  from assms(1) obtain m e where r: "r = of_int m * 2 powr of_int e"
    and m: "\<bar>m\<bar> < 2 ^ 53" and e: "- 1074 \<le> e" "e \<le> 971"
    by (auto simp add: representable_def)
  show ?thesis
  proof (cases "e < 971")
    case True
    have "2 * r = of_int m * 2 powr of_int (e + 1)"
      unfolding r by (simp add: powr_add)
    with m e True show ?thesis
      unfolding representable_def by (intro exI [of _ m] exI [of _ "e + 1"]) simp
  next
    case False
    with e have e971: "e = 971" by simp
    have p: "(2::real) powr of_int 971 = 2 ^ 971"
      by (simp add: powr_real_of_int)
    have "\<bar>of_int m\<bar> * (2::real) ^ 971 < 2 ^ 52 * 2 ^ 971"
      using assms(2) unfolding r e971 p by (simp add: abs_mult)
    then have "\<bar>of_int m :: real\<bar> < 2 ^ 52"
      by simp
    then have "\<bar>m\<bar> < 2 ^ 52"
      by (metis of_int_abs of_int_less_iff of_int_numeral of_int_power)
    then have "\<bar>2 * m\<bar> < 2 ^ 53"
      by simp
    moreover have "2 * r = of_int (2 * m) * 2 powr of_int 971"
      unfolding r e971 by simp
    ultimately show ?thesis
      unfolding representable_def by (intro exI [of _ "2 * m"] exI [of _ 971]) simp
  qed
qed

lemma rnd_0 [simp]: "rnd 0 = Fin 0"
  by (simp add: rnd_exact)

lemma rnd_nonneg:
  assumes "0 \<le> r"
  shows "rnd r = PInf \<or> (\<exists>v. rnd r = Fin v \<and> 0 \<le> v)"
  using round_real_nonneg [OF assms] by (simp add: rnd_def Let_def)

lemma rnd_overflow:
  assumes "2 ^ 1024 \<le> r"
  shows "rnd r = PInf"
proof -
  have "(2::real) powr of_int 1024 = 2 ^ 1024"
    by (simp add: powr_real_of_int)
  with assms have "2 powr of_int 1024 \<le> round_real r"
    by (intro round_real_ge_pow2) simp_all
  then show ?thesis
    using \<open>(2::real) powr of_int 1024 = 2 ^ 1024\<close> by (simp add: rnd_def Let_def)
qed



subsection \<open>Operations, distance and collision\<close>

lemma fdiv_Some: "b \<noteq> Fin 0 \<Longrightarrow> fdiv a b = Some (fquot a b)"
  by (simp add: fdiv_def)

lemma fne_zero: "fne a (Fin 0) \<longleftrightarrow> a \<noteq> Fin 0"
  by (auto simp add: fne_def)

lemma fgt_zero_nonzero: "fgt a (Fin 0) \<Longrightarrow> a \<noteq> Fin 0"
  by (auto simp add: fgt_def)

lemma nonneg64_simps [simp]:
  "nonneg64 PInf" "nonneg64 (Fin v) \<longleftrightarrow> 0 \<le> v" "\<not> nonneg64 NInf" "\<not> nonneg64 NaN"
  by (simp_all add: nonneg64_def)

lemma fadd_NaN_right [simp]: "fadd a NaN = NaN"
  by (cases a) simp_all

lemma fmul_NaN_right [simp]: "fmul a NaN = NaN"
  by (cases a) simp_all

lemma fle_NaN_right [simp]: "\<not> fle a NaN"
  by (cases a) simp_all

lemma flt_NaN_right [simp]: "\<not> flt a NaN"
  by (cases a) simp_all

lemma nonneg64_rnd: "0 \<le> r \<Longrightarrow> nonneg64 (rnd r)"
  using rnd_nonneg [of r] by auto

lemma fmul_self: "fmul a a = NaN \<or> nonneg64 (fmul a a)"
  by (cases a) (simp_all add: nonneg64_rnd)

lemma fmul_self_NaN: "fmul a a = NaN \<longleftrightarrow> a = NaN"
proof (cases a)
  case (Fin v)
  have "nonneg64 (rnd (v * v))" by (rule nonneg64_rnd) simp
  with Fin show ?thesis by auto
qed simp_all

lemma fadd_nonneg64:
  assumes "nonneg64 a" and "nonneg64 b"
  shows "nonneg64 (fadd a b)"
  using assms by (cases a; cases b) (simp_all add: nonneg64_rnd)

lemma fsqrt_nonneg64: "nonneg64 a \<Longrightarrow> nonneg64 (fsqrt a)"
  by (cases a) (simp_all add: nonneg64_rnd)

lemma sum_squares64: "fadd (fmul a a) (fmul b b) = NaN \<or> nonneg64 (fadd (fmul a a) (fmul b b))"
proof (cases "a = NaN \<or> b = NaN")
  case True
  then show ?thesis by auto
next
  case False
  then have "nonneg64 (fmul a a)" and "nonneg64 (fmul b b)"
    using fmul_self [of a] fmul_self [of b] by (simp_all add: fmul_self_NaN)
  then show ?thesis by (simp add: fadd_nonneg64)
qed

lemma euclid64: "fsqrt (fadd (fmul a a) (fmul b b)) = NaN \<or> nonneg64 (fsqrt (fadd (fmul a a) (fmul b b)))"
  using sum_squares64 [of a b] by (auto simp add: fsqrt_nonneg64)

lemma fge_nonneg64: "nonneg64 d \<Longrightarrow> fle rad (Fin 0) \<Longrightarrow> fge d rad"
  by (cases rad) (auto simp add: nonneg64_def fge_def)

lemma pointToSegmentDistance64_total: "\<exists>r. pointToSegmentDistance64 p s = Some r"
  by (simp add: pointToSegmentDistance64_def Let_def fne_zero fdiv_Some)

lemma pointToSegmentDistance64_distance:
  assumes "pointToSegmentDistance64 p s = Some r"
  shows "distance64 r = vectorLength64 \<lparr>x64 = fsub (x64 p) (x64 (closestPoint64 r)),
                                        y64 = fsub (y64 p) (y64 (closestPoint64 r))\<rparr>"
  using assms
  by (auto simp add: pointToSegmentDistance64_def vectorLength64_def Let_def fne_zero fdiv_Some
      split: if_splits)

lemma distance64_nonneg:
  assumes "pointToSegmentDistance64 p s = Some r"
  shows "distance64 r = NaN \<or> nonneg64 (distance64 r)"
  unfolding pointToSegmentDistance64_distance [OF assms] vectorLength64_def
  by simp (rule euclid64)

lemma circleSegmentCollision64_total: "\<exists>col. circleSegmentCollision64 c rad s = Some col"
proof -
  obtain r where r: "pointToSegmentDistance64 c s = Some r"
    using pointToSegmentDistance64_total by blast
  show ?thesis
    by (simp add: circleSegmentCollision64_def r Let_def fdiv_Some fgt_zero_nonzero)
qed

lemma circleSegmentCollision64_collided:
  assumes "pointToSegmentDistance64 c s = Some r"
    and "circleSegmentCollision64 c rad s = Some col"
  shows "collided64 col = (\<not> fge (distance64 r) rad)"
  using assms
  by (auto simp add: circleSegmentCollision64_def Let_def fdiv_Some fgt_zero_nonzero
      split: if_splits)



lemma representable_power2: "n \<le> 1023 \<Longrightarrow> representable (2 ^ n)"
  using representable_pow2 [of "int n"] by (simp add: powr_realpow)

lemma rnd_power2: "n \<le> 1023 \<Longrightarrow> rnd (2 ^ n) = Fin (2 ^ n)"
  by (simp add: rnd_exact representable_power2)

lemma rnd_1 [simp]: "rnd 1 = Fin 1"
  by (simp add: rnd_exact)

lemma rnd_2 [simp]: "rnd 2 = Fin 2"
  by (simp add: rnd_exact)

lemma rnd_minus: "rnd (- r) = fneg (rnd r)"
  by (simp add: rnd_def round_real_minus Let_def) 

lemma fsub_Fin: "fsub (Fin a) (Fin b) = rnd (a - b)"
  by (simp add: fsub_def)

lemma fsub_NaN [simp]: "fsub a NaN = NaN" "fsub NaN a = NaN"
  by (simp_all add: fsub_def)

lemma fquot_NaN_right [simp]: "fquot a NaN = NaN"
  by (cases a) simp_all

lemma fmin_NaN [simp]: "fmin a NaN = NaN" "fmin NaN a = NaN"
  by (simp_all add: fmin_def)

lemma fmax_NaN [simp]: "fmax a NaN = NaN" "fmax NaN a = NaN"
  by (simp_all add: fmax_def)

lemma fge_NaN [simp]: "\<not> fge NaN a" "\<not> fge a NaN"
  by (cases a; simp add: fge_def)+

lemma fgt_NaN [simp]: "\<not> fgt NaN a" "\<not> fgt a NaN"
  by (cases a; simp add: fgt_def)+

text \<open>
  Claim C10, as stated, fails: for the centre \<open>(0, 0)\<close>, the radius \<open>-1\<close> and the segment from
  \<open>(- (2 ^ 600), 0)\<close> to \<open>(2 ^ 600, 0)\<close> the squared length of the segment overflows, the
  distance computed is NaN, \<^verbatim>\<open>distance >= radius\<close> is false, and the result is a collision
  with NaN normal, depth and contact point.
\<close>

theorem circleSegmentCollision64_nonpositive_radius_collides:
  "fle (Fin (- 1)) (Fin 0) \<and>
   circleSegmentCollision64 \<lparr>x64 = Fin 0, y64 = Fin 0\<rparr> (Fin (- 1))
       \<lparr>start64 = \<lparr>x64 = Fin (- (2 ^ 600)), y64 = Fin 0\<rparr>,
        endp64 = \<lparr>x64 = Fin (2 ^ 600), y64 = Fin 0\<rparr>\<rparr>
     = Some \<lparr>collided64 = True, normal64 = Some \<lparr>x64 = NaN, y64 = NaN\<rparr>, depth64 = Some NaN,
             contactPoint64 = Some \<lparr>x64 = NaN, y64 = NaN\<rparr>\<rparr>"
proof -
  define B C :: real where "B = 2 ^ 600" and "C = 2 ^ 601"
  have rB: "rnd B = Fin B" and rC: "rnd C = Fin C"
    unfolding B_def C_def by (rule rnd_power2, simp)+
  have "B - - B = C"
    by (simp add: B_def C_def)
  then have sx: "fsub (Fin B) (Fin (- B)) = Fin C"
    unfolding fsub_Fin by (simp only: rC)
  have "0 - - B = B"
    by simp
  then have px: "fsub (Fin 0) (Fin (- B)) = Fin B"
    unfolding fsub_Fin by (simp only: rB)
  have z: "fsub (Fin 0) (Fin 0) = Fin 0"
    by (simp add: fsub_Fin)
  have "(2::real) ^ 1024 \<le> C * C" and "(2::real) ^ 1024 \<le> B * C"
    unfolding B_def C_def power_add [symmetric] by (simp_all add: power_increasing)
  then have m1: "rnd (C * C) = PInf" and m2: "rnd (B * C) = PInf"
    by (simp_all add: rnd_overflow)
  have p: "pointToSegmentDistance64 \<lparr>x64 = Fin 0, y64 = Fin 0\<rparr>
              \<lparr>start64 = \<lparr>x64 = Fin (- B), y64 = Fin 0\<rparr>, endp64 = \<lparr>x64 = Fin B, y64 = Fin 0\<rparr>\<rparr>
        = Some \<lparr>distance64 = NaN, closestPoint64 = \<lparr>x64 = NaN, y64 = NaN\<rparr>\<rparr>"
    by (simp add: pointToSegmentDistance64_def Let_def sx px z m1 m2 fne_def fdiv_def)
  show ?thesis
    unfolding B_def [symmetric]
    by (simp add: circleSegmentCollision64_def p Let_def)
qed

lemma bounded64_Fin [simp]: "bounded64 k (Fin v) \<longleftrightarrow> \<bar>v\<bar> \<le> 2 powr of_int k"
  by (simp add: bounded64_def)

lemma bounded64_not [simp]: "\<not> bounded64 k NaN" "\<not> bounded64 k PInf" "\<not> bounded64 k NInf"
  by (simp_all add: bounded64_def)

lemma bounded64_mono: "j \<le> k \<Longrightarrow> bounded64 j a \<Longrightarrow> bounded64 k a"
proof -
  assume jk: "j \<le> k" and "bounded64 j a"
  then obtain v where a: "a = Fin v" and v: "\<bar>v\<bar> \<le> 2 powr of_int j"
    by (auto simp add: bounded64_def)
  have "(2::real) powr of_int j \<le> 2 powr of_int k"
    using jk by (intro powr_mono) simp_all
  with v have "\<bar>v\<bar> \<le> 2 powr of_int k"
    by (rule order_trans)
  with a show ?thesis by (simp only: bounded64_Fin)
qed

lemma round_real_abs_le:
  assumes "- 1074 \<le> k" and "\<bar>r\<bar> \<le> 2 powr of_int k"
  shows "\<bar>round_real r\<bar> \<le> 2 powr of_int k"
proof -
  consider "r = 0" | "0 < r" | "r < 0"
    by linarith
  then show ?thesis
  proof cases
    case 1
    then show ?thesis by (simp add: round_real_def)
  next
    case 2
    with assms have "round_real r \<le> 2 powr of_int k"
      by (intro round_real_le_pow2) simp_all
    moreover have "0 \<le> round_real r"
      using 2 by (intro round_real_nonneg) simp
    ultimately show ?thesis by simp
  next
    case 3
    with assms have "round_real (- r) \<le> 2 powr of_int k"
      by (intro round_real_le_pow2) simp_all
    moreover have "0 \<le> round_real (- r)"
      using 3 by (intro round_real_nonneg) simp
    ultimately show ?thesis by (simp add: round_real_minus)
  qed
qed

lemma rnd_bounded:
  assumes "- 1074 \<le> k" and "k \<le> 1023" and "\<bar>r\<bar> \<le> 2 powr of_int k"
  shows "bounded64 k (rnd r)"
proof -
  have le: "\<bar>round_real r\<bar> \<le> 2 powr of_int k"
    using assms(1,3) by (rule round_real_abs_le)
  have "(2::real) powr of_int k \<le> 2 powr of_int 1023"
    using assms(2) by (intro powr_mono) simp_all
  also have "\<dots> < 2 ^ 1024"
    by (simp add: powr_real_of_int)
  finally have "\<bar>round_real r\<bar> < 2 ^ 1024"
    using le by linarith
  then have "rnd r = Fin (round_real r)"
    by (simp add: rnd_def Let_def) linarith
  with le show ?thesis by simp
qed

lemma two_powr_Suc: "(2::real) powr of_int (k + 1) = 2 * 2 powr of_int k"
  by (simp add: powr_add)

lemma fadd_bounded:
  assumes "bounded64 k a" and "bounded64 k b" and "- 1075 \<le> k" and "k \<le> 1022"
  shows "bounded64 (k + 1) (fadd a b)"
proof -
  from assms(1,2) obtain v w where a: "a = Fin v" and b: "b = Fin w"
    and v: "\<bar>v\<bar> \<le> 2 powr of_int k" and w: "\<bar>w\<bar> \<le> 2 powr of_int k"
    by (auto simp add: bounded64_def)
  have "\<bar>v + w\<bar> \<le> 2 powr of_int (k + 1)"
    unfolding two_powr_Suc using v w by linarith
  then have "bounded64 (k + 1) (rnd (v + w))"
    using assms(3,4) by (intro rnd_bounded) simp_all
  then show ?thesis by (simp add: a b)
qed

lemma fneg_bounded: "bounded64 k a \<Longrightarrow> bounded64 k (fneg a)"
  by (auto simp add: bounded64_def)

lemma fsub_bounded:
  assumes "bounded64 k a" and "bounded64 k b" and "- 1075 \<le> k" and "k \<le> 1022"
  shows "bounded64 (k + 1) (fsub a b)"
  unfolding fsub_def using assms by (intro fadd_bounded fneg_bounded)

lemma fmul_bounded:
  assumes "bounded64 j a" and "bounded64 k b" and "- 1074 \<le> j + k" and "j + k \<le> 1023"
  shows "bounded64 (j + k) (fmul a b)"
proof -
  from assms(1,2) obtain v w where a: "a = Fin v" and b: "b = Fin w"
    and v: "\<bar>v\<bar> \<le> 2 powr of_int j" and w: "\<bar>w\<bar> \<le> 2 powr of_int k"
    by (auto simp add: bounded64_def)
  have "\<bar>v\<bar> * \<bar>w\<bar> \<le> 2 powr of_int j * 2 powr of_int k"
    using v w by (intro mult_mono) simp_all
  then have "\<bar>v * w\<bar> \<le> 2 powr of_int (j + k)"
    by (simp add: abs_mult powr_add)
  then have "bounded64 (j + k) (rnd (v * w))"
    using assms(3,4) by (intro rnd_bounded)
  then show ?thesis by (simp add: a b)
qed

lemma clamp01_bounded: "q \<noteq> NaN \<Longrightarrow> bounded64 0 (fmax (Fin 0) (fmin (Fin 1) q))"
  by (cases q) (auto simp add: fmax_def fmin_def)

lemma rnd_not_NaN [simp]: "rnd r \<noteq> NaN"
  by (simp add: rnd_def Let_def)

lemma fquot_bounded_not_NaN: "bounded64 j a \<Longrightarrow> bounded64 k b \<Longrightarrow> fquot a b \<noteq> NaN"
  by (auto simp add: bounded64_def)

lemma fsub_not_NaN: "bounded64 j a \<Longrightarrow> bounded64 k b \<Longrightarrow> fsub a b \<noteq> NaN"
  by (auto simp add: bounded64_def fsub_def)

lemma euclid64_not_NaN:
  assumes "a \<noteq> NaN" and "b \<noteq> NaN"
  shows "fsqrt (fadd (fmul a a) (fmul b b)) \<noteq> NaN"
proof -
  have "nonneg64 (fmul a a)" and "nonneg64 (fmul b b)"
    using fmul_self [of a] fmul_self [of b] assms by (simp_all add: fmul_self_NaN)
  then have "nonneg64 (fsqrt (fadd (fmul a a) (fmul b b)))"
    by (intro fsqrt_nonneg64 fadd_nonneg64)
  then show ?thesis by auto
qed

lemma pointToSegmentDistance64_bounded:
  assumes p: "bounded64 500 (x64 p)" "bounded64 500 (y64 p)"
    and s: "bounded64 500 (x64 (start64 s))" "bounded64 500 (y64 (start64 s))"
    and e: "bounded64 500 (x64 (endp64 s))" "bounded64 500 (y64 (endp64 s))"
    and r: "pointToSegmentDistance64 p s = Some r"
  shows "distance64 r \<noteq> NaN"
proof -
  let ?sx = "fsub (x64 (endp64 s)) (x64 (start64 s))"
  let ?sy = "fsub (y64 (endp64 s)) (y64 (start64 s))"
  let ?px = "fsub (x64 p) (x64 (start64 s))"
  let ?py = "fsub (y64 p) (y64 (start64 s))"
  let ?l = "fadd (fmul ?sx ?sx) (fmul ?sy ?sy)"
  let ?d = "fadd (fmul ?px ?sx) (fmul ?py ?sy)"
  let ?t = "if fne ?l (Fin 0) then fmax (Fin 0) (fmin (Fin 1) (fquot ?d ?l)) else Fin 0"
  let ?cx = "fadd (x64 (start64 s)) (fmul ?t ?sx)"
  let ?cy = "fadd (y64 (start64 s)) (fmul ?t ?sy)"
  have sx: "bounded64 501 ?sx" and sy: "bounded64 501 ?sy"
    and px: "bounded64 501 ?px" and py: "bounded64 501 ?py"
    using fsub_bounded [of 500] p s e by simp_all
  have "bounded64 1002 (fmul ?sx ?sx)" and "bounded64 1002 (fmul ?sy ?sy)"
    and "bounded64 1002 (fmul ?px ?sx)" and "bounded64 1002 (fmul ?py ?sy)"
    using fmul_bounded [of 501 _ 501] sx sy px py by simp_all
  then have l: "bounded64 1003 ?l" and d: "bounded64 1003 ?d"
    using fadd_bounded [of 1002] by simp_all
  have t: "bounded64 0 ?t"
    using fquot_bounded_not_NaN [OF d l] by (simp add: clamp01_bounded)
  have "bounded64 501 (fmul ?t ?sx)" and "bounded64 501 (fmul ?t ?sy)"
    using fmul_bounded [OF t sx] fmul_bounded [OF t sy] by simp_all
  moreover have "bounded64 501 (x64 (start64 s))" and "bounded64 501 (y64 (start64 s))"
    using s by (auto intro: bounded64_mono [of 500 501])
  ultimately have cx: "bounded64 502 ?cx" and cy: "bounded64 502 ?cy"
    using fadd_bounded [of 501] by simp_all
  have "fsub (x64 p) ?cx \<noteq> NaN" and "fsub (y64 p) ?cy \<noteq> NaN"
    by (rule fsub_not_NaN [OF p(1) cx], rule fsub_not_NaN [OF p(2) cy])
  then have "fsqrt (fadd (fmul (fsub (x64 p) ?cx) (fsub (x64 p) ?cx))
                         (fmul (fsub (y64 p) ?cy) (fsub (y64 p) ?cy))) \<noteq> NaN"
    by (rule euclid64_not_NaN)
  moreover have "distance64 r = fsqrt (fadd (fmul (fsub (x64 p) ?cx) (fsub (x64 p) ?cx))
                         (fmul (fsub (y64 p) ?cy) (fsub (y64 p) ?cy)))"
    using r by (auto simp add: pointToSegmentDistance64_def Let_def fne_zero fdiv_Some
        split: if_splits)
  ultimately show ?thesis by simp
qed

lemma rnd_4 [simp]: "rnd 4 = Fin 4"
  using rnd_power2 [of 2] by simp


lemma flt_simps_var [simp]: "\<not> flt PInf a" "\<not> flt a NInf"
  by (cases a; simp)+

lemma fle_simps_var [simp]: "fle a PInf \<longleftrightarrow> a \<noteq> NaN" "fle NInf a \<longleftrightarrow> a \<noteq> NaN"
  by (cases a; simp)+






lemma representable_minus_iff [simp]: "representable (- r) \<longleftrightarrow> representable r"
  using representable_minus [of r] representable_minus [of "- r"] by auto

lemma bounce_x_axis:
  assumes a: "representable a" and b: "representable b" and neg: "a * s < 0"
    and s: "s = 1 \<or> s = - 1" and bound: "\<bar>a\<bar> < 2 ^ 1023"
  shows "calculateBounceVelocity64 \<lparr>x64 = Fin a, y64 = Fin b\<rparr> \<lparr>x64 = Fin s, y64 = Fin 0\<rparr>
           \<lparr>x64 = Fin 0, y64 = Fin 0\<rparr> (Fin 1) = \<lparr>x64 = Fin (- a), y64 = Fin b\<rparr>"
    and "dotProduct64 \<lparr>x64 = Fin a, y64 = Fin b\<rparr> \<lparr>x64 = Fin s, y64 = Fin 0\<rparr> = Fin (a * s)"
    and "dotProduct64 \<lparr>x64 = Fin (- a), y64 = Fin b\<rparr> \<lparr>x64 = Fin s, y64 = Fin 0\<rparr> = Fin (- (a * s))"
proof -
  have d: "dotProduct64 \<lparr>x64 = Fin a, y64 = Fin b\<rparr> \<lparr>x64 = Fin s, y64 = Fin 0\<rparr> = Fin (a * s)"
    using s a by (auto simp add: dotProduct64_def rnd_exact)
  show "dotProduct64 \<lparr>x64 = Fin a, y64 = Fin b\<rparr> \<lparr>x64 = Fin s, y64 = Fin 0\<rparr> = Fin (a * s)"
    by (rule d)
  show "dotProduct64 \<lparr>x64 = Fin (- a), y64 = Fin b\<rparr> \<lparr>x64 = Fin s, y64 = Fin 0\<rparr> = Fin (- (a * s))"
    using s a by (auto simp add: dotProduct64_def rnd_exact)
  have as: "representable (a * s)" "\<bar>a * s\<bar> < 2 ^ 1023"
    using s a bound by auto
  have r2: "representable (2 * (a * s))"
    using as by (rule representable_double)
  have r2a: "representable (2 * a)"
    using a bound by (rule representable_double)
  have ss: "2 * (a * s) * s = 2 * a"
    using s by auto
  have x: "fmul (fmul (fmul (Fin 2) (Fin (a * s))) (Fin s)) (Fin 1) = Fin (2 * a)"
    using r2 r2a by (simp add: rnd_exact ss)
  have y: "fmul (fmul (fmul (Fin 2) (Fin (a * s))) (Fin 0)) (Fin 1) = Fin 0"
    using r2 by (simp add: rnd_exact)
  have z: "fsub (Fin 1) (Fin 1) = Fin 0" "fmul (Fin 0) (Fin 0) = Fin 0"
    by (simp_all add: fsub_Fin)
  have rel: "fsub (Fin a) (Fin 0) = Fin a" "fsub (Fin b) (Fin 0) = Fin b"
    using a b by (simp_all add: fsub_Fin rnd_exact)
  have fin: "fadd (fsub (Fin a) (Fin (2 * a))) (Fin 0) = Fin (- a)"
    "fadd (Fin b) (Fin 0) = Fin b"
    using a b by (simp_all add: fsub_Fin rnd_exact)
  have "\<not> fgt (Fin (a * s)) (Fin 0)"
    using neg by (simp add: fgt_def)
  then show "calculateBounceVelocity64 \<lparr>x64 = Fin a, y64 = Fin b\<rparr> \<lparr>x64 = Fin s, y64 = Fin 0\<rparr>
           \<lparr>x64 = Fin 0, y64 = Fin 0\<rparr> (Fin 1) = \<lparr>x64 = Fin (- a), y64 = Fin b\<rparr>"
    unfolding calculateBounceVelocity64_def Let_def
    by (simp only: Vector2D64.select_convs rel d x y z fin if_False)
qed

lemma bounce_y_axis:
  assumes a: "representable a" and b: "representable b" and neg: "b * s < 0"
    and s: "s = 1 \<or> s = - 1" and bound: "\<bar>b\<bar> < 2 ^ 1023"
  shows "calculateBounceVelocity64 \<lparr>x64 = Fin a, y64 = Fin b\<rparr> \<lparr>x64 = Fin 0, y64 = Fin s\<rparr>
           \<lparr>x64 = Fin 0, y64 = Fin 0\<rparr> (Fin 1) = \<lparr>x64 = Fin a, y64 = Fin (- b)\<rparr>"
    and "dotProduct64 \<lparr>x64 = Fin a, y64 = Fin b\<rparr> \<lparr>x64 = Fin 0, y64 = Fin s\<rparr> = Fin (b * s)"
    and "dotProduct64 \<lparr>x64 = Fin a, y64 = Fin (- b)\<rparr> \<lparr>x64 = Fin 0, y64 = Fin s\<rparr> = Fin (- (b * s))"
proof -
  have d: "dotProduct64 \<lparr>x64 = Fin a, y64 = Fin b\<rparr> \<lparr>x64 = Fin 0, y64 = Fin s\<rparr> = Fin (b * s)"
    using s b by (auto simp add: dotProduct64_def rnd_exact)
  show "dotProduct64 \<lparr>x64 = Fin a, y64 = Fin b\<rparr> \<lparr>x64 = Fin 0, y64 = Fin s\<rparr> = Fin (b * s)"
    by (rule d)
  show "dotProduct64 \<lparr>x64 = Fin a, y64 = Fin (- b)\<rparr> \<lparr>x64 = Fin 0, y64 = Fin s\<rparr> = Fin (- (b * s))"
    using s b by (auto simp add: dotProduct64_def rnd_exact)
  have bs: "representable (b * s)" "\<bar>b * s\<bar> < 2 ^ 1023"
    using s b bound by auto
  have r2: "representable (2 * (b * s))"
    using bs by (rule representable_double)
  have r2b: "representable (2 * b)"
    using b bound by (rule representable_double)
  have ss: "2 * (b * s) * s = 2 * b"
    using s by auto
  have y: "fmul (fmul (fmul (Fin 2) (Fin (b * s))) (Fin s)) (Fin 1) = Fin (2 * b)"
    using r2 r2b by (simp add: rnd_exact ss)
  have x: "fmul (fmul (fmul (Fin 2) (Fin (b * s))) (Fin 0)) (Fin 1) = Fin 0"
    using r2 by (simp add: rnd_exact)
  have z: "fsub (Fin 1) (Fin 1) = Fin 0" "fmul (Fin 0) (Fin 0) = Fin 0"
    by (simp_all add: fsub_Fin)
  have rel: "fsub (Fin a) (Fin 0) = Fin a" "fsub (Fin b) (Fin 0) = Fin b"
    using a b by (simp_all add: fsub_Fin rnd_exact)
  have fin: "fadd (fsub (Fin b) (Fin (2 * b))) (Fin 0) = Fin (- b)"
    "fadd (Fin a) (Fin 0) = Fin a"
    using a b by (simp_all add: fsub_Fin rnd_exact)
  have "\<not> fgt (Fin (b * s)) (Fin 0)"
    using neg by (simp add: fgt_def)
  then show "calculateBounceVelocity64 \<lparr>x64 = Fin a, y64 = Fin b\<rparr> \<lparr>x64 = Fin 0, y64 = Fin s\<rparr>
           \<lparr>x64 = Fin 0, y64 = Fin 0\<rparr> (Fin 1) = \<lparr>x64 = Fin a, y64 = Fin (- b)\<rparr>"
    unfolding calculateBounceVelocity64_def Let_def
    by (simp only: Vector2D64.select_convs rel d x y z fin if_False)
qed

lemma sum_squares_power4:
  fixes P Q :: int
  shows "P * P + Q * Q = 4 ^ K \<Longrightarrow> (P = 0 \<and> \<bar>Q\<bar> = 2 ^ K) \<or> (\<bar>P\<bar> = 2 ^ K \<and> Q = 0)"
proof (induction K arbitrary: P Q)
  case 0
  then have pq: "P * P + Q * Q = 1" by simp
  have sq: "0 \<le> P * P" "0 \<le> Q * Q" by simp_all
  have small: "\<bar>z\<bar> < 2" if "z * z \<le> 1" for z :: int
  proof (rule ccontr)
    assume "\<not> \<bar>z\<bar> < 2"
    then have "2 * 2 \<le> \<bar>z\<bar> * \<bar>z\<bar>" by (intro mult_mono) simp_all
    then have "4 \<le> z * z" by (simp add: abs_mult_self_eq)
    with that show False by linarith
  qed
  have "P * P \<le> 1" "Q * Q \<le> 1"
    using pq sq by linarith+
  then have "\<bar>P\<bar> < 2" "\<bar>Q\<bar> < 2"
    by (simp_all add: small)
  then have "(P = - 1 \<or> P = 0 \<or> P = 1) \<and> (Q = - 1 \<or> Q = 0 \<or> Q = 1)"
    by linarith
  with pq show ?case by auto
next
  case (Suc K)
  then have eq: "P * P + Q * Q = 4 * 4 ^ K" by simp
  have "even P \<and> even Q"
  proof (rule ccontr)
    assume "\<not> (even P \<and> even Q)"
    then consider "odd P" "odd Q" | "odd P" "even Q" | "even P" "odd Q"
      by blast
    then show False
    proof cases
      case 1
      then obtain k l where "P = 2 * k + 1" "Q = 2 * l + 1"
        by (auto elim!: oddE)
      then have "P * P + Q * Q = 4 * (k * k + k + l * l + l) + 2"
        by (simp add: algebra_simps)
      with eq have "4 * (k * k + k + l * l + l) + 2 = 4 * (4::int) ^ K" by simp
      then show False by presburger
    next
      case 2
      then have "odd (P * P + Q * Q)" by simp
      with eq show False by simp
    next
      case 3
      then have "odd (P * P + Q * Q)" by simp
      with eq show False by simp
    qed
  qed
  then obtain k l where P: "P = 2 * k" and Q: "Q = 2 * l"
    by (auto elim!: evenE)
  with eq have "k * k + l * l = 4 ^ K" by simp
  from Suc.IH [OF this] show ?case
    unfolding P Q by (auto simp add: abs_mult)
qed

lemma representable_dyadic:
  assumes "representable r"
  shows "\<exists>P::int. of_int P = r * 2 ^ 1074"
proof -
  from assms obtain m e where r: "r = of_int m * 2 powr of_int e" and e: "- 1074 \<le> e"
    by (auto simp add: representable_def)
  have p: "(2::real) powr of_int 1074 = 2 ^ 1074"
    by (simp add: powr_real_of_int)
  have "r * 2 ^ 1074 = of_int m * (2 powr of_int e * 2 powr of_int 1074)"
    unfolding r p by simp
  also have "2 powr of_int e * 2 powr of_int 1074 = (2::real) powr of_int (e + 1074)"
    by (simp only: powr_add [symmetric] of_int_add)
  also have "\<dots> = of_int (2 ^ nat (e + 1074))"
    using e by (intro two_powr_int) simp
  finally have "of_int (m * 2 ^ nat (e + 1074)) = r * 2 ^ 1074"
    by (simp only: of_int_mult)
  then show ?thesis ..
qed

lemma dyadic_unit_axis:
  fixes p q :: real and P Q :: int
  assumes P: "of_int P = p * 2 ^ K" and Q: "of_int Q = q * 2 ^ K" and unit: "p * p + q * q = 1"
  shows "(p = 0 \<and> (q = 1 \<or> q = - 1)) \<or> ((p = 1 \<or> p = - 1) \<and> q = 0)"
proof -
  define T :: real where "T = 2 ^ K"
  have T: "0 < T" by (simp add: T_def)
  have "(of_int (P * P + Q * Q) :: real) = (p * p + q * q) * (T * T)"
    using P Q by (simp add: T_def algebra_simps)
  also have "\<dots> = T * T"
    by (simp add: unit)
  also have "\<dots> = of_int (4 ^ K)"
    by (simp add: T_def power_mult_distrib [symmetric])
  finally have "P * P + Q * Q = 4 ^ K"
    by (simp only: of_int_eq_iff)
  then consider "P = 0" "\<bar>Q\<bar> = 2 ^ K" | "\<bar>P\<bar> = 2 ^ K" "Q = 0"
    using sum_squares_power4 by blast
  then show ?thesis
  proof cases
    case 1
    from 1(1) P T have p0: "p = 0" by (simp add: T_def)
    from 1(2) have "\<bar>of_int Q :: real\<bar> = T"
      by (simp add: T_def flip: of_int_abs)
    then have "\<bar>q\<bar> * T = 1 * T"
      using Q T by (simp add: T_def abs_mult)
    then have "\<bar>q\<bar> = 1" using T by simp
    with p0 show ?thesis by auto
  next
    case 2
    from 2(2) Q T have q0: "q = 0" by (simp add: T_def)
    from 2(1) have "\<bar>of_int P :: real\<bar> = T"
      by (simp add: T_def flip: of_int_abs)
    then have "\<bar>p\<bar> * T = 1 * T"
      using P T by (simp add: T_def abs_mult)
    then have "\<bar>p\<bar> = 1" using T by simp
    with q0 show ?thesis by auto
  qed
qed

lemma unit_representable_axis:
  assumes "representable p" and "representable q" and "p * p + q * q = 1"
  shows "(p = 0 \<and> (q = 1 \<or> q = - 1)) \<or> ((p = 1 \<or> p = - 1) \<and> q = 0)"
proof -
  from assms(1) obtain P :: int where P: "of_int P = p * 2 ^ 1074"
    using representable_dyadic by blast
  from assms(2) obtain Q :: int where Q: "of_int Q = q * 2 ^ 1074"
    using representable_dyadic by blast
  from P Q assms(3) show ?thesis
    by (rule dyadic_unit_axis)
qed

text \<open>
  Claim C5, as the code has it. Let the components of the velocity \<open>v = (a, b)\<close> and of the
  normal \<open>n = (p, q)\<close> be doubles, \<open>n\<close> of length exactly one, \<open>dot v n < 0\<close> and
  \<open>\<bar>dot v n\<bar> < 2 ^ 1023\<close>, so that \<open>2 * dot v n\<close> does not overflow. Then, for a wall at rest
  and damping \<open>1\<close>, \<^verbatim>\<open>calculateBounceVelocity\<close> returns exactly \<open>v - 2 * dot v n * n\<close>: the dot
  products with \<open>n\<close> computed before and after are exactly \<open>dot v n\<close> and its negation, and
  the dot product with the tangent \<open>(-q, p)\<close> is the same before and after. (A pair of doubles
  of length exactly one is one of \<open>(+-1, 0)\<close>, \<open>(0, +-1)\<close>: lemma \<open>unit_representable_axis\<close>.)
\<close>

theorem calculateBounceVelocity64_elastic:
  assumes v: "representable a" "representable b" and n: "representable p" "representable q"
    and unit: "p * p + q * q = 1" and approaching: "a * p + b * q < 0"
    and finite: "\<bar>a * p + b * q\<bar> < 2 ^ 1023"
  shows "calculateBounceVelocity64 \<lparr>x64 = Fin a, y64 = Fin b\<rparr> \<lparr>x64 = Fin p, y64 = Fin q\<rparr>
             \<lparr>x64 = Fin 0, y64 = Fin 0\<rparr> (Fin 1)
           = \<lparr>x64 = Fin (a - 2 * (a * p + b * q) * p), y64 = Fin (b - 2 * (a * p + b * q) * q)\<rparr> \<and>
         dotProduct64 \<lparr>x64 = Fin a, y64 = Fin b\<rparr> \<lparr>x64 = Fin p, y64 = Fin q\<rparr> = Fin (a * p + b * q) \<and>
         dotProduct64 (calculateBounceVelocity64 \<lparr>x64 = Fin a, y64 = Fin b\<rparr> \<lparr>x64 = Fin p, y64 = Fin q\<rparr>
             \<lparr>x64 = Fin 0, y64 = Fin 0\<rparr> (Fin 1)) \<lparr>x64 = Fin p, y64 = Fin q\<rparr> = Fin (- (a * p + b * q)) \<and>
         dotProduct64 (calculateBounceVelocity64 \<lparr>x64 = Fin a, y64 = Fin b\<rparr> \<lparr>x64 = Fin p, y64 = Fin q\<rparr>
             \<lparr>x64 = Fin 0, y64 = Fin 0\<rparr> (Fin 1)) \<lparr>x64 = Fin (- q), y64 = Fin p\<rparr>
           = dotProduct64 \<lparr>x64 = Fin a, y64 = Fin b\<rparr> \<lparr>x64 = Fin (- q), y64 = Fin p\<rparr>"
proof -
  from n unit consider (y) "p = 0" "q = 1 \<or> q = - 1" | (x) "p = 1 \<or> p = - 1" "q = 0"
    using unit_representable_axis by blast
  then show ?thesis
  proof cases
    case x
    from approaching x have neg: "a * p < 0" by simp
    from finite x have bound: "\<bar>a\<bar> < 2 ^ 1023" by auto
    have res: "a - 2 * (a * p + b * q) * p = - a" "b - 2 * (a * p + b * q) * q = b"
      using x by auto
    have d: "a * p + b * q = a * p" using x by simp
    note bx = bounce_x_axis [OF v neg x(1) bound]
    have R: "calculateBounceVelocity64 \<lparr>x64 = Fin a, y64 = Fin b\<rparr> \<lparr>x64 = Fin p, y64 = Fin q\<rparr>
             \<lparr>x64 = Fin 0, y64 = Fin 0\<rparr> (Fin 1) = \<lparr>x64 = Fin (- a), y64 = Fin b\<rparr>"
      using bx(1) x(2) by simp
    have D1: "dotProduct64 \<lparr>x64 = Fin a, y64 = Fin b\<rparr> \<lparr>x64 = Fin p, y64 = Fin q\<rparr> = Fin (a * p + b * q)"
      using bx(2) x(2) by simp
    have D2: "dotProduct64 \<lparr>x64 = Fin (- a), y64 = Fin b\<rparr> \<lparr>x64 = Fin p, y64 = Fin q\<rparr>
        = Fin (- (a * p + b * q))"
      using bx(3) x(2) by simp
    have T: "dotProduct64 \<lparr>x64 = Fin (- a), y64 = Fin b\<rparr> \<lparr>x64 = Fin (- q), y64 = Fin p\<rparr>
        = dotProduct64 \<lparr>x64 = Fin a, y64 = Fin b\<rparr> \<lparr>x64 = Fin (- q), y64 = Fin p\<rparr>"
      using x(2) by (simp add: dotProduct64_def)
    show ?thesis
      by (simp only: R res D1 D2 T simp_thms)
  next
    case y
    from approaching y have neg: "b * q < 0" by simp
    from finite y have bound: "\<bar>b\<bar> < 2 ^ 1023" by auto
    have res: "a - 2 * (a * p + b * q) * p = a" "b - 2 * (a * p + b * q) * q = - b"
      using y by auto
    have d: "a * p + b * q = b * q" using y by simp
    note byy = bounce_y_axis [OF v neg y(2) bound]
    have R: "calculateBounceVelocity64 \<lparr>x64 = Fin a, y64 = Fin b\<rparr> \<lparr>x64 = Fin p, y64 = Fin q\<rparr>
             \<lparr>x64 = Fin 0, y64 = Fin 0\<rparr> (Fin 1) = \<lparr>x64 = Fin a, y64 = Fin (- b)\<rparr>"
      using byy(1) y(1) by simp
    have D1: "dotProduct64 \<lparr>x64 = Fin a, y64 = Fin b\<rparr> \<lparr>x64 = Fin p, y64 = Fin q\<rparr> = Fin (a * p + b * q)"
      using byy(2) y(1) by simp
    have D2: "dotProduct64 \<lparr>x64 = Fin a, y64 = Fin (- b)\<rparr> \<lparr>x64 = Fin p, y64 = Fin q\<rparr>
        = Fin (- (a * p + b * q))"
      using byy(3) y(1) by simp
    have T: "dotProduct64 \<lparr>x64 = Fin a, y64 = Fin (- b)\<rparr> \<lparr>x64 = Fin (- q), y64 = Fin p\<rparr>
        = dotProduct64 \<lparr>x64 = Fin a, y64 = Fin b\<rparr> \<lparr>x64 = Fin (- q), y64 = Fin p\<rparr>"
      using y(1) by (simp add: dotProduct64_def)
    show ?thesis
      by (simp only: R res D1 D2 T simp_thms)
  qed
qed



lemma bounded64_small: "\<bar>v\<bar> \<le> 4 \<Longrightarrow> bounded64 500 (Fin v)"
proof -
  assume "\<bar>v\<bar> \<le> 4"
  moreover have "(4::real) = 2 powr of_int 2"
    by (simp add: powr_real_of_int)
  moreover have "(2::real) powr of_int 2 \<le> 2 powr of_int 500"
    by (intro powr_mono) simp_all
  ultimately show ?thesis
    unfolding bounded64_Fin by linarith
qed

text \<open>
  Claim C5, as stated, fails: for the unit normal \<open>n = (-1, 0)\<close> and the velocity
  \<open>v = (2 ^ 1023, 0)\<close>, a double, \<open>dot v n = - (2 ^ 1023) < 0\<close>; \<open>2 * dot v n\<close> overflows to
  \<open>-infinity\<close>, and the result is \<open>(-infinity, NaN)\<close>, not \<open>v - 2 * dot v n * n = (- (2 ^ 1023), 0)\<close>.
\<close>

theorem calculateBounceVelocity64_overflow:
  "representable (2 ^ 1023) \<and> representable 0 \<and> representable (- 1) \<and>
   (- 1) * (- 1) + 0 * 0 = (1::real) \<and> 2 ^ 1023 * (- 1) + 0 * 0 < (0::real) \<and>
   calculateBounceVelocity64 \<lparr>x64 = Fin (2 ^ 1023), y64 = Fin 0\<rparr> \<lparr>x64 = Fin (- 1), y64 = Fin 0\<rparr>
       \<lparr>x64 = Fin 0, y64 = Fin 0\<rparr> (Fin 1)
     = \<lparr>x64 = NInf, y64 = NaN\<rparr>"
proof -
  define B :: real where "B = 2 ^ 1023"
  have B: "0 < B"
    by (simp add: B_def)
  have rep: "representable B"
    unfolding B_def by (rule representable_power2) simp
  then have rB: "rnd B = Fin B"
    by (rule rnd_exact)
  have "(2::real) ^ 1024 = 2 * B"
    unfolding B_def by simp
  then have ov: "rnd (2 * B) = PInf"
    by (intro rnd_overflow) simp
  have m: "rnd (- B) = Fin (- B)" "rnd (- (2 * B)) = NInf"
    unfolding rnd_minus rB ov by simp_all
  have d: "dotProduct64 \<lparr>x64 = Fin B, y64 = Fin 0\<rparr> \<lparr>x64 = Fin (- 1), y64 = Fin 0\<rparr> = Fin (- B)"
    by (simp add: dotProduct64_def m)
  have g: "\<not> fgt (Fin (- B)) (Fin 0)"
    using B by (simp add: fgt_def)
  have rel: "fsub (Fin B) (Fin 0) = Fin B" "fsub (Fin 0) (Fin 0) = Fin 0"
    by (simp_all add: fsub_Fin rB)
  have two: "fmul (Fin 2) (Fin (- B)) = NInf"
    by (simp add: m)
  have c: "calculateBounceVelocity64 \<lparr>x64 = Fin B, y64 = Fin 0\<rparr> \<lparr>x64 = Fin (- 1), y64 = Fin 0\<rparr>
       \<lparr>x64 = Fin 0, y64 = Fin 0\<rparr> (Fin 1) = \<lparr>x64 = NInf, y64 = NaN\<rparr>"
    unfolding calculateBounceVelocity64_def Let_def Vector2D64.select_convs rel d two
    using g by (simp add: fsub_def)
  have "B * (- 1) + 0 * 0 < 0"
    using B by simp
  with rep c show ?thesis
    unfolding B_def by simp
qed

text \<open>
  An instance: \<open>v = (-1, 2)\<close> against the normal \<open>(1, 0)\<close> is reflected to \<open>(1, 2)\<close>.
\<close>

theorem calculateBounceVelocity64_elastic_witness:
  "calculateBounceVelocity64 \<lparr>x64 = Fin (- 1), y64 = Fin 2\<rparr> \<lparr>x64 = Fin 1, y64 = Fin 0\<rparr>
       \<lparr>x64 = Fin 0, y64 = Fin 0\<rparr> (Fin 1) = \<lparr>x64 = Fin 1, y64 = Fin 2\<rparr> \<and>
   dotProduct64 \<lparr>x64 = Fin (- 1), y64 = Fin 2\<rparr> \<lparr>x64 = Fin 1, y64 = Fin 0\<rparr> = Fin (- 1) \<and>
   dotProduct64 \<lparr>x64 = Fin 1, y64 = Fin 2\<rparr> \<lparr>x64 = Fin 1, y64 = Fin 0\<rparr> = Fin 1"
  using calculateBounceVelocity64_elastic [of "- 1" 2 1 0] by auto


lemma pointToSegmentDistance64_instance:
  "pointToSegmentDistance64 \<lparr>x64 = Fin 0, y64 = Fin 2\<rparr>
       \<lparr>start64 = \<lparr>x64 = Fin 0, y64 = Fin 0\<rparr>, endp64 = \<lparr>x64 = Fin 1, y64 = Fin 0\<rparr>\<rparr>
     = Some \<lparr>distance64 = Fin 2, closestPoint64 = \<lparr>x64 = Fin 0, y64 = Fin 0\<rparr>\<rparr>"
  by (simp add: pointToSegmentDistance64_def Let_def fsub_Fin fne_def fdiv_def fmin_def fmax_def)


text \<open>
  Claim C10, as the code has it. For a radius less than or equal to zero
  \<^verbatim>\<open>circleSegmentCollision\<close> returns the object \<^verbatim>\<open>{ collided: false }\<close> whenever the distance
  computed is not NaN, which holds when all six coordinates are finite of magnitude at most
  \<open>2 ^ 500\<close>; when the distance computed is NaN it reports a collision, whatever the radius.
\<close>

theorem circleSegmentCollision64_nonpositive_radius:
  "\<exists>r. pointToSegmentDistance64 c s = Some r \<and>
     (fle rad (Fin 0) \<and> distance64 r \<noteq> NaN \<longrightarrow>
        circleSegmentCollision64 c rad s
          = Some \<lparr>collided64 = False, normal64 = None, depth64 = None, contactPoint64 = None\<rparr>) \<and>
     (bounded64 500 (x64 c) \<and> bounded64 500 (y64 c) \<and>
      bounded64 500 (x64 (start64 s)) \<and> bounded64 500 (y64 (start64 s)) \<and>
      bounded64 500 (x64 (endp64 s)) \<and> bounded64 500 (y64 (endp64 s)) \<longrightarrow> distance64 r \<noteq> NaN) \<and>
     (distance64 r = NaN \<longrightarrow>
        (\<exists>col. circleSegmentCollision64 c rad s = Some col \<and> collided64 col))"
proof -
  obtain r where r: "pointToSegmentDistance64 c s = Some r"
    using pointToSegmentDistance64_total by blast
  obtain col where col: "circleSegmentCollision64 c rad s = Some col"
    using circleSegmentCollision64_total by blast
  have c: "collided64 col = (\<not> fge (distance64 r) rad)"
    using r col by (rule circleSegmentCollision64_collided)
  have "fge (distance64 r) rad" if "fle rad (Fin 0)" and "distance64 r \<noteq> NaN"
    using distance64_nonneg [OF r] that by (auto intro: fge_nonneg64)
  then have "circleSegmentCollision64 c rad s
          = Some \<lparr>collided64 = False, normal64 = None, depth64 = None, contactPoint64 = None\<rparr>"
    if "fle rad (Fin 0) \<and> distance64 r \<noteq> NaN"
    using that r by (auto simp add: circleSegmentCollision64_def)
  moreover have "distance64 r \<noteq> NaN"
    if "bounded64 500 (x64 c) \<and> bounded64 500 (y64 c) \<and>
      bounded64 500 (x64 (start64 s)) \<and> bounded64 500 (y64 (start64 s)) \<and>
      bounded64 500 (x64 (endp64 s)) \<and> bounded64 500 (y64 (endp64 s))"
    using that r by (intro pointToSegmentDistance64_bounded [of c s r]) simp_all
  moreover have "\<exists>col. circleSegmentCollision64 c rad s = Some col \<and> collided64 col"
    if "distance64 r = NaN"
    using that c col by (simp add: fge_def)
  ultimately show ?thesis
    using r by blast
qed

text \<open>
  An instance: the centre \<open>(0, 2)\<close> and the segment from \<open>(0, 0)\<close> to \<open>(1, 0)\<close>, with the
  radii \<open>-1\<close> and \<open>0\<close>.
\<close>

theorem circleSegmentCollision64_nonpositive_radius_witness:
  "fle (Fin (- 1)) (Fin 0) \<and> fle (Fin 0) (Fin 0) \<and>
   bounded64 500 (Fin 0) \<and> bounded64 500 (Fin 1) \<and> bounded64 500 (Fin 2) \<and>
   circleSegmentCollision64 \<lparr>x64 = Fin 0, y64 = Fin 2\<rparr> (Fin (- 1))
       \<lparr>start64 = \<lparr>x64 = Fin 0, y64 = Fin 0\<rparr>, endp64 = \<lparr>x64 = Fin 1, y64 = Fin 0\<rparr>\<rparr>
     = Some \<lparr>collided64 = False, normal64 = None, depth64 = None, contactPoint64 = None\<rparr> \<and>
   circleSegmentCollision64 \<lparr>x64 = Fin 0, y64 = Fin 2\<rparr> (Fin 0)
       \<lparr>start64 = \<lparr>x64 = Fin 0, y64 = Fin 0\<rparr>, endp64 = \<lparr>x64 = Fin 1, y64 = Fin 0\<rparr>\<rparr>
     = Some \<lparr>collided64 = False, normal64 = None, depth64 = None, contactPoint64 = None\<rparr>"
  using circleSegmentCollision64_nonpositive_radius [of "\<lparr>x64 = Fin 0, y64 = Fin 2\<rparr>"
      "\<lparr>start64 = \<lparr>x64 = Fin 0, y64 = Fin 0\<rparr>, endp64 = \<lparr>x64 = Fin 1, y64 = Fin 0\<rparr>\<rparr>" "Fin (- 1)"]
    circleSegmentCollision64_nonpositive_radius [of "\<lparr>x64 = Fin 0, y64 = Fin 2\<rparr>"
      "\<lparr>start64 = \<lparr>x64 = Fin 0, y64 = Fin 0\<rparr>, endp64 = \<lparr>x64 = Fin 1, y64 = Fin 0\<rparr>\<rparr>" "Fin 0"]
  by (auto simp add: pointToSegmentDistance64_instance bounded64_small simp del: bounded64_Fin)



end
